theory Spec2Isabelle
  imports Main
begin

section \<open>Values exchanged with the rules library\<close>

text \<open>
  The server (src/main.py) is glue around a chess rules library and a search engine.
  Pieces, squares and moves are the library's value types; the server reads their
  fields and calls a handful of board methods. Colours are booleans, as in the library
  (\<open>WHITE = True\<close>, \<open>BLACK = False\<close>); squares are integers \<open>rank * 8 + file\<close>.
\<close>

datatype piece_type = PAWN | KNIGHT | BISHOP | ROOK | QUEEN | KING

record piece =
  piece_type :: piece_type
  color :: bool

abbreviation (input) WHITE :: bool where "WHITE \<equiv> True"
abbreviation (input) BLACK :: bool where "BLACK \<equiv> False"

fun lower_symbol :: "piece_type \<Rightarrow> char" where
  "lower_symbol PAWN = CHR ''p''"
| "lower_symbol KNIGHT = CHR ''n''"
| "lower_symbol BISHOP = CHR ''b''"
| "lower_symbol ROOK = CHR ''r''"
| "lower_symbol QUEEN = CHR ''q''"
| "lower_symbol KING = CHR ''k''"

fun upper_symbol :: "piece_type \<Rightarrow> char" where
  "upper_symbol PAWN = CHR ''P''"
| "upper_symbol KNIGHT = CHR ''N''"
| "upper_symbol BISHOP = CHR ''B''"
| "upper_symbol ROOK = CHR ''R''"
| "upper_symbol QUEEN = CHR ''Q''"
| "upper_symbol KING = CHR ''K''"

definition symbol :: "piece \<Rightarrow> char" where
  "symbol pc = (if color pc then upper_symbol (piece_type pc) else lower_symbol (piece_type pc))"

record move =
  from_square :: int
  to_square :: int
  promotion :: "piece_type option"

definition Move :: "int \<Rightarrow> int \<Rightarrow> move" where
  "Move f t = \<lparr>from_square = f, to_square = t, promotion = None\<rparr>"

definition square :: "int \<Rightarrow> int \<Rightarrow> int" where
  "square file_index rank_index = rank_index * 8 + file_index"

definition square_file :: "int \<Rightarrow> int" where
  "square_file sq = sq mod 8"

definition square_rank :: "int \<Rightarrow> int" where
  "square_rank sq = sq div 8"

section \<open>The board object: a position with its move stack\<close>

text \<open>
  A board keeps the current position and, for every move pushed, the position it was
  pushed on together with the move; \<open>pop\<close> puts the saved position back. The type
  \<open>'p\<close> of positions belongs to the rules library.
\<close>

record 'p board =
  cur :: 'p
  history :: "('p \<times> move) list"

definition move_stack :: "'p board \<Rightarrow> move list" where
  "move_stack b = map snd (history b)"

text \<open>
  The methods of the library that the server calls. The library is not part of the
  repository, so its rules are a parameter \<open>R\<close> of every server function. Methods that
  look at the position only take a position; the termination queries, which may look at
  earlier positions (repetition), take the board. The methods are total here: the
  server calls them on squares of the board and, for \<open>san\<close> and \<open>apply_move\<close>, on moves
  that are legal where they are played, which is where the library defines them.
\<close>

record 'p rules =
  start :: 'p
  piece_at :: "'p \<Rightarrow> int \<Rightarrow> piece option"
  turn :: "'p \<Rightarrow> bool"
  legal_moves :: "'p \<Rightarrow> move list"
  is_capture :: "'p \<Rightarrow> move \<Rightarrow> bool"
  apply_move :: "'p \<Rightarrow> move \<Rightarrow> 'p"
  is_check :: "'p \<Rightarrow> bool"
  san :: "'p \<Rightarrow> move \<Rightarrow> string"
  is_checkmate :: "'p \<Rightarrow> bool"
  is_stalemate :: "'p \<Rightarrow> bool"
  is_insufficient_material :: "'p \<Rightarrow> bool"
  is_seventyfive_moves :: "'p \<Rightarrow> bool"
  is_fivefold_repetition :: "'p board \<Rightarrow> bool"
  is_game_over :: "'p board \<Rightarrow> bool"
  result :: "'p board \<Rightarrow> string"

definition Board :: "'p rules \<Rightarrow> 'p board" where
  "Board R = \<lparr>cur = start R, history = []\<rparr>"

definition push :: "'p rules \<Rightarrow> 'p board \<Rightarrow> move \<Rightarrow> 'p board" where
  "push R b m = \<lparr>cur = apply_move R (cur b) m, history = history b @ [(cur b, m)]\<rparr>"

datatype error = IndexError

definition pop :: "'p board \<Rightarrow> error + (move \<times> 'p board)" where
  "pop b = (if history b = [] then Inl IndexError
            else Inr (snd (last (history b)),
                      \<lparr>cur = fst (last (history b)), history = butlast (history b)\<rparr>))"

definition list_pop :: "'a list \<Rightarrow> error + 'a list" where
  "list_pop xs = (if xs = [] then Inl IndexError else Inr (butlast xs))"

definition and_then :: "error + 'a \<Rightarrow> ('a \<Rightarrow> error + 'b) \<Rightarrow> error + 'b" where
  "and_then r f = (case r of Inl e \<Rightarrow> Inl e | Inr x \<Rightarrow> f x)"

section \<open>Sessions, snapshots and responses\<close>

record captured =
  white :: "char list"
  black :: "char list"

record 'p game_session =
  board :: "'p board"
  captured_pieces :: captured

type_synonym 'p games = "string \<rightharpoonup> 'p game_session"

record game_state =
  st_board :: "char option list list"
  st_current_player :: string
  st_game_over :: bool
  st_winner :: "string option"
  st_move_history :: "string list"
  st_captured_pieces :: captured
  st_last_move :: "((int \<times> int) \<times> (int \<times> int)) option"
  st_is_check :: bool

datatype response =
    Failure string
  | NewGameOk string "game_state option"
  | MoveOk "game_state option" bool
  | ValidMovesOk "(int \<times> int) list"
  | StateOk "game_state option"

record move_request =
  from_row :: int
  from_col :: int
  to_row :: int
  to_col :: int

section \<open>Helper functions of the server\<close>

definition board_to_2d_array :: "'p rules \<Rightarrow> 'p board \<Rightarrow> char option list list" where
  "board_to_2d_array R b =
     map (\<lambda>row. map (\<lambda>col. map_option symbol (piece_at R (cur b) (square col (7 - row))))
                    [0, 1, 2, 3, 4, 5, 6, 7])
         [0, 1, 2, 3, 4, 5, 6, 7]"

definition get_winner :: "'p rules \<Rightarrow> 'p board \<Rightarrow> string option" where
  "get_winner R b =
     (if is_checkmate R (cur b) then
        (if result R b = ''1-0'' then Some ''white''
         else if result R b = ''0-1'' then Some ''black''
         else None)
      else if is_stalemate R (cur b) \<or> is_insufficient_material R (cur b)
              \<or> is_seventyfive_moves R (cur b) \<or> is_fivefold_repetition R b
        then Some ''draw''
      else None)"

definition get_last_move :: "'p board \<Rightarrow> ((int \<times> int) \<times> (int \<times> int)) option" where
  "get_last_move b =
     (if move_stack b = [] then None
      else let last_move = last (move_stack b) in
        Some ((7 - square_rank (from_square last_move), square_file (from_square last_move)),
              (7 - square_rank (to_square last_move), square_file (to_square last_move))))"

text \<open>
  The move history is recomputed by replaying the move stack on a temporary board that
  starts from the initial position; the loop returns the notation and the temporary
  board it ends with, which is then dropped.
\<close>

fun replay :: "'p rules \<Rightarrow> move list \<Rightarrow> string list \<times> 'p board \<Rightarrow> string list \<times> 'p board" where
  "replay R [] acc = acc"
| "replay R (m # ms) (move_history, temp_board) =
     replay R ms (move_history @ [san R (cur temp_board) m], push R temp_board m)"

definition state_dict :: "'p rules \<Rightarrow> 'p game_session \<Rightarrow> game_state" where
  "state_dict R game_session =
     (let b = board game_session;
          (move_history, temp_board) = replay R (move_stack b) ([], Board R)
      in \<lparr>st_board = board_to_2d_array R b,
          st_current_player = (if turn R (cur b) = WHITE then ''white'' else ''black''),
          st_game_over = is_game_over R b,
          st_winner = get_winner R b,
          st_move_history = move_history,
          st_captured_pieces = captured_pieces game_session,
          st_last_move = get_last_move b,
          st_is_check = is_check R (cur b)\<rparr>)"

text \<open>\<open>game_state_to_dict\<close> looks the session up and builds the dictionary
  (\<open>state_dict\<close> above is the part after the lookup); it hands the session table back
  as it leaves it.\<close>

definition game_state_to_dict :: "'p rules \<Rightarrow> 'p games \<Rightarrow> string \<Rightarrow> game_state option \<times> 'p games" where
  "game_state_to_dict R games game_id =
     (case games game_id of
        None \<Rightarrow> (None, games)
      | Some game_session \<Rightarrow> (Some (state_dict R game_session), games))"

text \<open>The session check every route starts with: a cookie value that is set, non-empty
  and a key of the session table.\<close>

definition no_active_game :: "'p games \<Rightarrow> string option \<Rightarrow> bool" where
  "no_active_game games cookie =
     (case cookie of None \<Rightarrow> True | Some game_id \<Rightarrow> game_id = [] \<or> games game_id = None)"

section \<open>The routes\<close>

text \<open>\<open>new_game\<close>: the fresh identifier is an argument; the route also stores it in the cookie.\<close>

definition new_session :: "'p rules \<Rightarrow> 'p game_session" where
  "new_session R = \<lparr>board = Board R, captured_pieces = \<lparr>white = [], black = []\<rparr>\<rparr>"

definition new_game :: "'p rules \<Rightarrow> 'p games \<Rightarrow> string \<Rightarrow> response \<times> 'p games \<times> string option" where
  "new_game R games game_id =
     (let games1 = games(game_id \<mapsto> new_session R);
          (st, games2) = game_state_to_dict R games1 game_id
      in (NewGameOk game_id st, games2, Some game_id))"

text \<open>The candidate move of \<open>make_move\<close>, with the promotion adjustment.\<close>

definition candidate :: "'p rules \<Rightarrow> 'p board \<Rightarrow> move_request \<Rightarrow> move" where
  "candidate R b data =
     (let from_sq = square (from_col data) (7 - from_row data);
          to_sq = square (to_col data) (7 - to_row data);
          mv = Move from_sq to_sq
      in case piece_at R (cur b) from_sq of
           None \<Rightarrow> mv
         | Some pc \<Rightarrow>
             if piece_type pc = PAWN then
               (if square_rank to_sq = 0 \<or> square_rank to_sq = 7
                then mv\<lparr>promotion := Some QUEEN\<rparr> else mv)
             else mv)"

text \<open>The symbol recorded for a capturing move: the piece on the destination square,
  else the piece on the origin square.\<close>

definition captured_piece :: "'p rules \<Rightarrow> 'p board \<Rightarrow> move \<Rightarrow> piece option" where
  "captured_piece R b m =
     (case piece_at R (cur b) (to_square m) of
        Some pc \<Rightarrow> Some pc
      | None \<Rightarrow> piece_at R (cur b) (from_square m))"

definition track_capture :: "'p rules \<Rightarrow> 'p board \<Rightarrow> move \<Rightarrow> char list \<Rightarrow> char list" where
  "track_capture R b m xs =
     (if is_capture R (cur b) m then
        (case captured_piece R b m of Some pc \<Rightarrow> xs @ [symbol pc] | None \<Rightarrow> xs)
      else xs)"

text \<open>\<open>make_move\<close>: \<open>engine\<close> is the search engine's answer for a board (an engine that
  fails to answer is not modelled).\<close>

definition make_move ::
  "'p rules \<Rightarrow> ('p board \<Rightarrow> move) \<Rightarrow> 'p games \<Rightarrow> string option \<Rightarrow> move_request
     \<Rightarrow> response \<times> 'p games" where
  "make_move R engine games cookie data =
     (if no_active_game games cookie then (Failure ''No active game'', games)
      else
        let game_id = the cookie;
            game_session = the (games game_id);
            b = board game_session;
            cp = captured_pieces game_session;
            mv = candidate R b data
        in if mv \<in> set (legal_moves R (cur b)) then
             let cp1 = cp\<lparr>white := track_capture R b mv (white cp)\<rparr>;
                 b1 = push R b mv;
                 (b2, cp2, ai_moved) =
                   (if \<not> is_game_over R b1 then
                      let ai_move = engine b1
                      in (push R b1 ai_move,
                          cp1\<lparr>black := track_capture R b1 ai_move (black cp1)\<rparr>,
                          True)
                    else (b1, cp1, False));
                 games1 = games(game_id \<mapsto> \<lparr>board = b2, captured_pieces = cp2\<rparr>);
                 (st, games2) = game_state_to_dict R games1 game_id
             in (MoveOk st ai_moved, games2)
           else (Failure ''Invalid move'', games))"

definition get_valid_moves ::
  "'p rules \<Rightarrow> 'p games \<Rightarrow> string option \<Rightarrow> int \<Rightarrow> int \<Rightarrow> response \<times> 'p games" where
  "get_valid_moves R games cookie row col =
     (if no_active_game games cookie then (Failure ''No active game'', games)
      else
        let b = board (the (games (the cookie)));
            from_sq = square col (7 - row);
            valid_moves_coords =
              map (\<lambda>m. (7 - square_rank (to_square m), square_file (to_square m)))
                  (filter (\<lambda>m. from_square m = from_sq) (legal_moves R (cur b)))
        in (ValidMovesOk valid_moves_coords, games))"

text \<open>
  \<open>undo_move\<close>: the two pops of the board and the two removals from the capture lists
  can raise on an empty list, so the body is written with error results; the guards of
  the source are the \<open>if\<close>s around them.
\<close>

definition undo_exchange :: "'p rules \<Rightarrow> 'p game_session \<Rightarrow> error + (move \<times> move \<times> 'p game_session)" where
  "undo_exchange R game_session =
     and_then (pop (board game_session)) (\<lambda>(ai_move, b1).
     and_then (if is_capture R (cur b1) ai_move \<and> black (captured_pieces game_session) \<noteq> []
               then list_pop (black (captured_pieces game_session))
               else Inr (black (captured_pieces game_session))) (\<lambda>black1.
     and_then (pop b1) (\<lambda>(player_move, b2).
     and_then (if is_capture R (cur b2) player_move \<and> white (captured_pieces game_session) \<noteq> []
               then list_pop (white (captured_pieces game_session))
               else Inr (white (captured_pieces game_session))) (\<lambda>white1.
     Inr (ai_move, player_move,
          \<lparr>board = b2, captured_pieces = \<lparr>white = white1, black = black1\<rparr>\<rparr>)))))"

definition undo_move :: "'p rules \<Rightarrow> 'p games \<Rightarrow> string option \<Rightarrow> error + (response \<times> 'p games)" where
  "undo_move R games cookie =
     (if no_active_game games cookie then Inr (Failure ''No active game'', games)
      else
        let game_id = the cookie;
            game_session = the (games game_id)
        in if length (move_stack (board game_session)) \<ge> 2 then
             and_then (undo_exchange R game_session) (\<lambda>(ai_move, player_move, s1).
               let games1 = games(game_id \<mapsto> s1);
                   (st, games2) = game_state_to_dict R games1 game_id
               in Inr (StateOk st, games2))
           else Inr (Failure ''Cannot undo'', games))"

definition get_game_state_route :: "'p rules \<Rightarrow> 'p games \<Rightarrow> string option \<Rightarrow> response \<times> 'p games" where
  "get_game_state_route R games cookie =
     (if no_active_game games cookie then (Failure ''No active game'', games)
      else let (st, games1) = game_state_to_dict R games (the cookie)
           in (StateOk st, games1))"

section \<open>The rules of chess, as an instance of the rules parameter\<close>

text \<open>
  Modelled from the spec: the rules engine collaborator (the chess library the server
  imports), which is not part of the repository. The spec describes it as the provider of
  legality, check, checkmate and draw detection and of the notation of moves under the
  standard rules of chess; the definitions below are those rules, written against the
  method names the server calls. A position is the piece placement (a function of the
  square: square \<open>0\<close> is a1, square \<open>63\<close> is h8), the side to move, the castling rights,
  the en-passant square and the two move counters. The order in which legal moves are
  listed is not the library's, and a square outside the board holds no piece.
\<close>

record position =
  pieces :: "int \<Rightarrow> piece option"
  to_move :: bool
  castle_wk :: bool
  castle_wq :: bool
  castle_bk :: bool
  castle_bq :: bool
  ep_square :: "int option"
  halfmove_clock :: nat
  fullmove_number :: nat

definition Piece :: "piece_type \<Rightarrow> bool \<Rightarrow> piece" where
  "Piece t c = \<lparr>piece_type = t, color = c\<rparr>"

definition on_board :: "int \<Rightarrow> int \<Rightarrow> bool" where
  "on_board f r \<longleftrightarrow> 0 \<le> f \<and> f < 8 \<and> 0 \<le> r \<and> r < 8"

definition chess_piece_at :: "position \<Rightarrow> int \<Rightarrow> piece option" where
  "chess_piece_at p sq = (if 0 \<le> sq \<and> sq < 64 then pieces p sq else None)"

definition at :: "position \<Rightarrow> int \<Rightarrow> int \<Rightarrow> piece option" where
  "at p f r = (if on_board f r then chess_piece_at p (square f r) else None)"

definition forward :: "bool \<Rightarrow> int" where
  "forward c = (if c then 1 else - 1)"

definition knight_offsets :: "(int \<times> int) list" where
  "knight_offsets = [(1, 2), (2, 1), (2, - 1), (1, - 2), (- 1, - 2), (- 2, - 1), (- 2, 1), (- 1, 2)]"

definition rook_dirs :: "(int \<times> int) list" where
  "rook_dirs = [(1, 0), (0, 1), (- 1, 0), (0, - 1)]"

definition bishop_dirs :: "(int \<times> int) list" where
  "bishop_dirs = [(1, 1), (1, - 1), (- 1, - 1), (- 1, 1)]"

definition king_offsets :: "(int \<times> int) list" where
  "king_offsets = rook_dirs @ bishop_dirs"

fun first_piece :: "position \<Rightarrow> int \<Rightarrow> int \<Rightarrow> int \<Rightarrow> int \<Rightarrow> nat \<Rightarrow> piece option" where
  "first_piece p f r df dr 0 = None"
| "first_piece p f r df dr (Suc n) =
     (if \<not> on_board (f + df) (r + dr) then None
      else case at p (f + df) (r + dr) of
             Some pc \<Rightarrow> Some pc
           | None \<Rightarrow> first_piece p (f + df) (r + dr) df dr n)"

definition attacked :: "position \<Rightarrow> bool \<Rightarrow> int \<Rightarrow> int \<Rightarrow> bool" where
  "attacked p c f r \<longleftrightarrow>
     list_ex (\<lambda>(df, dr). at p (f + df) (r + dr) = Some (Piece KNIGHT c)) knight_offsets
   \<or> list_ex (\<lambda>(df, dr). at p (f + df) (r + dr) = Some (Piece KING c)) king_offsets
   \<or> at p (f - 1) (r - forward c) = Some (Piece PAWN c)
   \<or> at p (f + 1) (r - forward c) = Some (Piece PAWN c)
   \<or> list_ex (\<lambda>(df, dr). first_piece p f r df dr 7 = Some (Piece ROOK c)
                         \<or> first_piece p f r df dr 7 = Some (Piece QUEEN c)) rook_dirs
   \<or> list_ex (\<lambda>(df, dr). first_piece p f r df dr 7 = Some (Piece BISHOP c)
                         \<or> first_piece p f r df dr 7 = Some (Piece QUEEN c)) bishop_dirs"

fun ray :: "position \<Rightarrow> bool \<Rightarrow> int \<Rightarrow> int \<Rightarrow> int \<Rightarrow> int \<Rightarrow> nat \<Rightarrow> int list" where
  "ray p c f r df dr 0 = []"
| "ray p c f r df dr (Suc n) =
     (if \<not> on_board (f + df) (r + dr) then []
      else case at p (f + df) (r + dr) of
             None \<Rightarrow> square (f + df) (r + dr) # ray p c (f + df) (r + dr) df dr n
           | Some pc \<Rightarrow> if color pc = c then [] else [square (f + df) (r + dr)])"

definition slide :: "position \<Rightarrow> bool \<Rightarrow> int \<Rightarrow> int \<Rightarrow> (int \<times> int) list \<Rightarrow> int list" where
  "slide p c f r dirs = concat (map (\<lambda>(df, dr). ray p c f r df dr 7) dirs)"

definition free_for :: "position \<Rightarrow> bool \<Rightarrow> int \<Rightarrow> int \<Rightarrow> bool" where
  "free_for p c f r \<longleftrightarrow>
     on_board f r \<and> (case at p f r of None \<Rightarrow> True | Some pc \<Rightarrow> color pc \<noteq> c)"

definition step :: "position \<Rightarrow> bool \<Rightarrow> int \<Rightarrow> int \<Rightarrow> (int \<times> int) list \<Rightarrow> int list" where
  "step p c f r offsets =
     map (\<lambda>(df, dr). square (f + df) (r + dr))
         (filter (\<lambda>(df, dr). free_for p c (f + df) (r + dr)) offsets)"

definition promote :: "bool \<Rightarrow> int \<Rightarrow> int \<Rightarrow> move list" where
  "promote c f t =
     (if square_rank t = (if c then 7 else 0)
      then map (\<lambda>pt. \<lparr>from_square = f, to_square = t, promotion = Some pt\<rparr>)
               [QUEEN, ROOK, BISHOP, KNIGHT]
      else [Move f t])"

definition enemy_at :: "position \<Rightarrow> bool \<Rightarrow> int \<Rightarrow> int \<Rightarrow> bool" where
  "enemy_at p c f r \<longleftrightarrow> (case at p f r of None \<Rightarrow> False | Some pc \<Rightarrow> color pc \<noteq> c)"

definition pawn_moves :: "position \<Rightarrow> bool \<Rightarrow> int \<Rightarrow> int \<Rightarrow> move list" where
  "pawn_moves p c f r =
     (let d = forward c; sq = square f r in
        concat (map (\<lambda>df. if enemy_at p c (f + df) (r + d)
                           then promote c sq (square (f + df) (r + d)) else []) [- 1, 1])
      @ (if on_board f (r + d) \<and> at p f (r + d) = None
         then promote c sq (square f (r + d)) else [])
      @ (if r = (if c then 1 else 6) \<and> at p f (r + d) = None \<and> at p f (r + 2 * d) = None
         then [Move sq (square f (r + 2 * d))] else [])
      @ concat (map (\<lambda>df. if on_board (f + df) (r + d) \<and> r = (if c then 4 else 3)
                              \<and> ep_square p = Some (square (f + df) (r + d))
                              \<and> at p (f + df) (r + d) = None
                           then [Move sq (square (f + df) (r + d))] else []) [- 1, 1]))"

definition castling_moves :: "position \<Rightarrow> bool \<Rightarrow> int \<Rightarrow> int \<Rightarrow> move list" where
  "castling_moves p c f r =
     (if f \<noteq> 4 \<or> r \<noteq> (if c then 0 else 7) \<or> attacked p (\<not> c) f r then []
      else
        (if (if c then castle_wk p else castle_bk p) \<and> at p 7 r = Some (Piece ROOK c)
            \<and> at p 5 r = None \<and> at p 6 r = None
            \<and> \<not> attacked p (\<not> c) 5 r \<and> \<not> attacked p (\<not> c) 6 r
         then [Move (square 4 r) (square 6 r)] else [])
      @ (if (if c then castle_wq p else castle_bq p) \<and> at p 0 r = Some (Piece ROOK c)
            \<and> at p 1 r = None \<and> at p 2 r = None \<and> at p 3 r = None
            \<and> \<not> attacked p (\<not> c) 3 r \<and> \<not> attacked p (\<not> c) 2 r
         then [Move (square 4 r) (square 2 r)] else []))"

definition piece_moves :: "position \<Rightarrow> piece \<Rightarrow> int \<Rightarrow> int \<Rightarrow> move list" where
  "piece_moves p pc f r =
     (case piece_type pc of
        PAWN \<Rightarrow> pawn_moves p (color pc) f r
      | KNIGHT \<Rightarrow> map (Move (square f r)) (step p (color pc) f r knight_offsets)
      | BISHOP \<Rightarrow> map (Move (square f r)) (slide p (color pc) f r bishop_dirs)
      | ROOK \<Rightarrow> map (Move (square f r)) (slide p (color pc) f r rook_dirs)
      | QUEEN \<Rightarrow> map (Move (square f r)) (slide p (color pc) f r (rook_dirs @ bishop_dirs))
      | KING \<Rightarrow> map (Move (square f r)) (step p (color pc) f r king_offsets)
                @ castling_moves p (color pc) f r)"

definition squares :: "int list" where
  "squares = [0..63]"

definition moves_from :: "position \<Rightarrow> int \<Rightarrow> move list" where
  "moves_from p sq =
     (case chess_piece_at p sq of
        None \<Rightarrow> []
      | Some pc \<Rightarrow> if color pc = to_move p
                   then piece_moves p pc (square_file sq) (square_rank sq) else [])"

definition pseudo_legal_moves :: "position \<Rightarrow> move list" where
  "pseudo_legal_moves p = concat (map (moves_from p) squares)"

definition is_en_passant :: "position \<Rightarrow> move \<Rightarrow> bool" where
  "is_en_passant p m \<longleftrightarrow>
     ep_square p = Some (to_square m)
   \<and> (case chess_piece_at p (from_square m) of None \<Rightarrow> False | Some pc \<Rightarrow> piece_type pc = PAWN)
   \<and> (\<bar>to_square m - from_square m\<bar> = 7 \<or> \<bar>to_square m - from_square m\<bar> = 9)
   \<and> chess_piece_at p (to_square m) = None"

definition is_castling :: "position \<Rightarrow> move \<Rightarrow> bool" where
  "is_castling p m \<longleftrightarrow>
     (case chess_piece_at p (from_square m) of
        None \<Rightarrow> False
      | Some pc \<Rightarrow> piece_type pc = KING
                   \<and> \<bar>square_file (to_square m) - square_file (from_square m)\<bar> > 1)"

definition opponent_on :: "position \<Rightarrow> int \<Rightarrow> bool" where
  "opponent_on p sq \<longleftrightarrow>
     (case chess_piece_at p sq of None \<Rightarrow> False | Some pc \<Rightarrow> color pc \<noteq> to_move p)"

definition chess_is_capture :: "position \<Rightarrow> move \<Rightarrow> bool" where
  "chess_is_capture p m \<longleftrightarrow>
     (from_square m \<noteq> to_square m \<and> (opponent_on p (from_square m) \<or> opponent_on p (to_square m)))
   \<or> is_en_passant p m"

definition put :: "int \<Rightarrow> piece option \<Rightarrow> (int \<Rightarrow> piece option) \<Rightarrow> int \<Rightarrow> piece option" where
  "put sq x ps = (if 0 \<le> sq \<and> sq < 64 then ps(sq := x) else ps)"

definition chess_push :: "position \<Rightarrow> move \<Rightarrow> position" where
  "chess_push p m =
     (let f = from_square m; t = to_square m; c = to_move p in
      case chess_piece_at p f of
        None \<Rightarrow> p\<lparr>to_move := \<not> c, ep_square := None,
                  halfmove_clock := Suc (halfmove_clock p),
                  fullmove_number := (if c then fullmove_number p else Suc (fullmove_number p))\<rparr>
      | Some pc \<Rightarrow>
          let placed = (case promotion m of None \<Rightarrow> pc | Some pt \<Rightarrow> Piece pt c);
              ps0 = put t (Some placed) (put f None (pieces p));
              ps1 = (if is_en_passant p m then put (t - 8 * forward c) None ps0 else ps0);
              ps2 = (if is_castling p m then
                       (if square_file t > square_file f
                        then put (t - 1) (Some (Piece ROOK c)) (put (t + 1) None ps1)
                        else put (t + 1) (Some (Piece ROOK c)) (put (t - 2) None ps1))
                     else ps1)
          in \<lparr>pieces = ps2,
              to_move = (\<not> c),
              castle_wk = (castle_wk p \<and> \<not> (piece_type pc = KING \<and> c) \<and> f \<noteq> 7 \<and> t \<noteq> 7),
              castle_wq = (castle_wq p \<and> \<not> (piece_type pc = KING \<and> c) \<and> f \<noteq> 0 \<and> t \<noteq> 0),
              castle_bk = (castle_bk p \<and> \<not> (piece_type pc = KING \<and> \<not> c) \<and> f \<noteq> 63 \<and> t \<noteq> 63),
              castle_bq = (castle_bq p \<and> \<not> (piece_type pc = KING \<and> \<not> c) \<and> f \<noteq> 56 \<and> t \<noteq> 56),
              ep_square = (if piece_type pc = PAWN \<and> t - f = 16 \<and> square_rank f = 1 then Some (f + 8)
                           else if piece_type pc = PAWN \<and> t - f = - 16 \<and> square_rank f = 6 then Some (f - 8)
                           else None),
              halfmove_clock = (if piece_type pc = PAWN \<or> chess_is_capture p m then 0
                                else Suc (halfmove_clock p)),
              fullmove_number = (if c then fullmove_number p else Suc (fullmove_number p))\<rparr>)"

definition king_square :: "position \<Rightarrow> bool \<Rightarrow> int option" where
  "king_square p c =
     List.find (\<lambda>sq. chess_piece_at p sq = Some (Piece KING c))
               (if c then squares else rev squares)"

definition in_check :: "position \<Rightarrow> bool \<Rightarrow> bool" where
  "in_check p c \<longleftrightarrow>
     (case king_square p c of
        None \<Rightarrow> False
      | Some k \<Rightarrow> attacked p (\<not> c) (square_file k) (square_rank k))"

definition chess_legal_moves :: "position \<Rightarrow> move list" where
  "chess_legal_moves p =
     filter (\<lambda>m. \<not> in_check (chess_push p m) (to_move p)) (pseudo_legal_moves p)"

definition back_rank :: "piece_type list" where
  "back_rank = [ROOK, KNIGHT, BISHOP, QUEEN, KING, BISHOP, KNIGHT, ROOK]"

definition start_pieces :: "int \<Rightarrow> piece option" where
  "start_pieces sq =
     (if sq < 0 \<or> 64 \<le> sq then None
      else if sq < 8 then Some (Piece (back_rank ! nat sq) WHITE)
      else if sq < 16 then Some (Piece PAWN WHITE)
      else if sq < 48 then None
      else if sq < 56 then Some (Piece PAWN BLACK)
      else Some (Piece (back_rank ! nat (sq - 56)) BLACK))"

definition chess_start :: position where
  "chess_start =
     \<lparr>pieces = start_pieces,
      to_move = WHITE,
      castle_wk = True, castle_wq = True, castle_bk = True, castle_bq = True,
      ep_square = None, halfmove_clock = 0, fullmove_number = 1\<rparr>"

definition chess_is_check :: "position \<Rightarrow> bool" where
  "chess_is_check p = in_check p (to_move p)"

definition chess_is_checkmate :: "position \<Rightarrow> bool" where
  "chess_is_checkmate p \<longleftrightarrow> chess_is_check p \<and> chess_legal_moves p = []"

definition chess_is_stalemate :: "position \<Rightarrow> bool" where
  "chess_is_stalemate p \<longleftrightarrow> \<not> chess_is_check p \<and> chess_legal_moves p = []"

definition pieces_of :: "position \<Rightarrow> bool \<Rightarrow> piece_type list" where
  "pieces_of p c =
     map piece_type (filter (\<lambda>pc. color pc = c) (List.map_filter (chess_piece_at p) squares))"

definition bishop_square_colors :: "position \<Rightarrow> bool list" where
  "bishop_square_colors p =
     map (\<lambda>sq. (square_file sq + square_rank sq) mod 2 = 1)
         (filter (\<lambda>sq. case chess_piece_at p sq of None \<Rightarrow> False
                                | Some pc \<Rightarrow> piece_type pc = BISHOP) squares)"

definition has_insufficient_material :: "position \<Rightarrow> bool \<Rightarrow> bool" where
  "has_insufficient_material p c =
     (let own = pieces_of p c; other = pieces_of p (\<not> c); every = own @ other in
      if PAWN \<in> set own \<or> ROOK \<in> set own \<or> QUEEN \<in> set own then False
      else if KNIGHT \<in> set own then
        length own \<le> 2 \<and> \<not> list_ex (\<lambda>t. t \<noteq> KING \<and> t \<noteq> QUEEN) other
      else if BISHOP \<in> set own then
        (\<not> list_ex (\<lambda>light. light) (bishop_square_colors p)
           \<or> \<not> list_ex (\<lambda>light. \<not> light) (bishop_square_colors p))
        \<and> PAWN \<notin> set every \<and> KNIGHT \<notin> set every
      else True)"

definition chess_is_insufficient_material :: "position \<Rightarrow> bool" where
  "chess_is_insufficient_material p \<longleftrightarrow>
     has_insufficient_material p WHITE \<and> has_insufficient_material p BLACK"

definition chess_is_seventyfive_moves :: "position \<Rightarrow> bool" where
  "chess_is_seventyfive_moves p \<longleftrightarrow> halfmove_clock p \<ge> 150 \<and> chess_legal_moves p \<noteq> []"

definition legal_ep_moves :: "position \<Rightarrow> move list" where
  "legal_ep_moves p =
     (case ep_square p of
        None \<Rightarrow> []
      | Some e \<Rightarrow>
          filter (\<lambda>m. is_en_passant p m \<and> \<not> in_check (chess_push p m) (to_move p))
                 (concat (map (moves_from p)
                              [e - 8 * forward (to_move p) - 1, e - 8 * forward (to_move p) + 1])))"

definition has_legal_en_passant :: "position \<Rightarrow> bool" where
  "has_legal_en_passant p \<longleftrightarrow> legal_ep_moves p \<noteq> []"

definition same_transposition :: "position \<Rightarrow> position \<Rightarrow> bool" where
  "same_transposition p q \<longleftrightarrow>
     to_move p = to_move q
   \<and> castle_wk p = castle_wk q \<and> castle_wq p = castle_wq q
   \<and> castle_bk p = castle_bk q \<and> castle_bq p = castle_bq q
   \<and> (if has_legal_en_passant p then ep_square p else None)
       = (if has_legal_en_passant q then ep_square q else None)
   \<and> list_all (\<lambda>sq. chess_piece_at p sq = chess_piece_at q sq) squares"

definition is_zeroing :: "position \<Rightarrow> move \<Rightarrow> bool" where
  "is_zeroing p m \<longleftrightarrow>
     (case chess_piece_at p (from_square m) of None \<Rightarrow> False | Some pc \<Rightarrow> piece_type pc = PAWN)
   \<or> (case chess_piece_at p (to_square m) of None \<Rightarrow> False | Some pc \<Rightarrow> piece_type pc = PAWN)
   \<or> opponent_on p (from_square m) \<or> opponent_on p (to_square m)"

definition reduces_castling_rights :: "position \<Rightarrow> move \<Rightarrow> bool" where
  "reduces_castling_rights p m \<longleftrightarrow>
     (castle_wk p, castle_wq p, castle_bk p, castle_bq p)
       \<noteq> (castle_wk (chess_push p m), castle_wq (chess_push p m),
           castle_bk (chess_push p m), castle_bq (chess_push p m))"

definition is_irreversible :: "position \<Rightarrow> move \<Rightarrow> bool" where
  "is_irreversible p m =
     (if is_zeroing p m then True
      else if reduces_castling_rights p m then True
      else has_legal_en_passant p)"

fun count_repetitions :: "position \<Rightarrow> (position \<times> move) list \<Rightarrow> nat" where
  "count_repetitions p [] = 0"
| "count_repetitions p ((q, m) # earlier) =
     (if is_irreversible q m then 0
      else (if same_transposition q p then 1 else 0)
           + count_repetitions p earlier)"

definition chess_is_fivefold_repetition :: "position board \<Rightarrow> bool" where
  "chess_is_fivefold_repetition b \<longleftrightarrow> count_repetitions (cur b) (rev (history b)) \<ge> 4"

definition chess_is_game_over :: "position board \<Rightarrow> bool" where
  "chess_is_game_over b =
     (if chess_legal_moves (cur b) = [] then True
      else if chess_is_insufficient_material (cur b) then True
      else if halfmove_clock (cur b) \<ge> 150 then True
      else chess_is_fivefold_repetition b)"

definition chess_result :: "position board \<Rightarrow> string" where
  "chess_result b =
     (if chess_is_checkmate (cur b) then (if to_move (cur b) then ''0-1'' else ''1-0'')
      else if chess_is_game_over b then ''1/2-1/2''
      else ''*'')"

definition file_name :: "int \<Rightarrow> char" where
  "file_name f = ''abcdefgh'' ! nat f"

definition rank_name :: "int \<Rightarrow> char" where
  "rank_name r = ''12345678'' ! nat r"

definition square_name :: "int \<Rightarrow> string" where
  "square_name sq = [file_name (square_file sq), rank_name (square_rank sq)]"

definition san_body :: "position \<Rightarrow> move \<Rightarrow> string" where
  "san_body p m =
     (case chess_piece_at p (from_square m) of
        None \<Rightarrow> ''--''
      | Some pc \<Rightarrow>
          if is_castling p m then
            (if square_file (to_square m) < square_file (from_square m) then ''O-O-O'' else ''O-O'')
          else
            let capture = chess_is_capture p m;
                others = map from_square
                           (filter (\<lambda>c. to_square c = to_square m \<and> from_square c \<noteq> from_square m
                                         \<and> chess_piece_at p (from_square c) = Some pc)
                                   (chess_legal_moves p));
                same_rank = list_ex (\<lambda>sq. square_rank sq = square_rank (from_square m)) others;
                same_file = list_ex (\<lambda>sq. square_file sq = square_file (from_square m)) others;
                prefix =
                  (if piece_type pc = PAWN then
                     (if capture then [file_name (square_file (from_square m))] else [])
                   else
                     upper_symbol (piece_type pc)
                     # (if others = [] then []
                        else (if same_rank \<or> \<not> same_file
                              then [file_name (square_file (from_square m))] else [])
                             @ (if same_file
                                then [rank_name (square_rank (from_square m))] else [])))
            in prefix @ (if capture then ''x'' else [])
               @ square_name (to_square m)
               @ (case promotion m of None \<Rightarrow> [] | Some pt \<Rightarrow> [CHR ''='', upper_symbol pt]))"

definition chess_san :: "position \<Rightarrow> move \<Rightarrow> string" where
  "chess_san p m =
     san_body p m
     @ (if chess_is_checkmate (chess_push p m) then ''#''
        else if chess_is_check (chess_push p m) then ''+'' else [])"

definition chess :: "position rules" where
  "chess =
     \<lparr>start = chess_start,
      piece_at = chess_piece_at,
      turn = to_move,
      legal_moves = chess_legal_moves,
      is_capture = chess_is_capture,
      apply_move = chess_push,
      is_check = chess_is_check,
      san = chess_san,
      is_checkmate = chess_is_checkmate,
      is_stalemate = chess_is_stalemate,
      is_insufficient_material = chess_is_insufficient_material,
      is_seventyfive_moves = chess_is_seventyfive_moves,
      is_fivefold_repetition = chess_is_fivefold_repetition,
      is_game_over = chess_is_game_over,
      result = chess_result\<rparr>"

section \<open>Notions used to state the properties\<close>

text \<open>What the server relies on from the rules library: a legal move starts on an
  occupied square and ends on a square of the board.\<close>

definition origin_occupied :: "'p rules \<Rightarrow> bool" where
  "origin_occupied R \<longleftrightarrow>
     (\<forall>p m. m \<in> set (legal_moves R p) \<longrightarrow> piece_at R p (from_square m) \<noteq> None)"

definition destinations_on_board :: "'p rules \<Rightarrow> bool" where
  "destinations_on_board R \<longleftrightarrow>
     (\<forall>p m. m \<in> set (legal_moves R p) \<longrightarrow> 0 \<le> to_square m \<and> to_square m < 64)"

text \<open>A request as the client sends it names two squares of the board: rows and columns
  from 0 to 7. What the library does with other numbers is not part of this model.\<close>

definition board_squares :: "move_request \<Rightarrow> bool" where
  "board_squares data \<longleftrightarrow>
     0 \<le> from_row data \<and> from_row data < 8 \<and> 0 \<le> from_col data \<and> from_col data < 8
   \<and> 0 \<le> to_row data \<and> to_row data < 8 \<and> 0 \<le> to_col data \<and> to_col data < 8"

text \<open>The capture list of a side, and the number of capturing moves on the move stack
  (a move counts if it was a capture in the position it was pushed on).\<close>

definition side_list :: "bool \<Rightarrow> captured \<Rightarrow> char list" where
  "side_list c cp = (if c = WHITE then white cp else black cp)"

definition capture_count :: "'p rules \<Rightarrow> 'p board \<Rightarrow> nat" where
  "capture_count R b = length (filter (\<lambda>(p, m). is_capture R p m) (history b))"

text \<open>The session after the player's move and after the engine's reply, as \<open>make_move\<close>
  leaves it.\<close>

definition player_moved :: "'p rules \<Rightarrow> 'p game_session \<Rightarrow> move \<Rightarrow> 'p game_session" where
  "player_moved R s mv =
     \<lparr>board = push R (board s) mv,
      captured_pieces = (captured_pieces s)
                        \<lparr>white := track_capture R (board s) mv (white (captured_pieces s))\<rparr>\<rparr>"

definition engine_moved :: "'p rules \<Rightarrow> 'p game_session \<Rightarrow> move \<Rightarrow> 'p game_session" where
  "engine_moved R s mv =
     \<lparr>board = push R (board s) mv,
      captured_pieces = (captured_pieces s)
                        \<lparr>black := track_capture R (board s) mv (black (captured_pieces s))\<rparr>\<rparr>"

text \<open>The grid the spec calls the standard starting arrangement: row 0 is the eighth
  rank, upper case is White.\<close>

definition standard_grid :: "char option list list" where
  "standard_grid =
     [map Some ''rnbqkbnr'',
      map Some ''pppppppp'',
      [None, None, None, None, None, None, None, None],
      [None, None, None, None, None, None, None, None],
      [None, None, None, None, None, None, None, None],
      [None, None, None, None, None, None, None, None],
      map Some ''PPPPPPPP'',
      map Some ''RNBQKBNR'']"

text \<open>
  ``The capture is credited to the mover'', for one call of \<open>make_move\<close> that leads from
  session \<open>s\<close> to session \<open>s'\<close>: the list of the side to move in \<open>s\<close> grows by the symbol of
  the player's capture and by nothing else, and the list of the other side grows by the
  symbol of the reply's capture and by nothing else.
\<close>

definition credited_to_movers ::
  "'p rules \<Rightarrow> ('p board \<Rightarrow> move) \<Rightarrow> 'p game_session \<Rightarrow> move_request \<Rightarrow> bool
     \<Rightarrow> 'p game_session \<Rightarrow> bool" where
  "credited_to_movers R engine s data ai_moved s' =
     (let b = board s;
          mv = candidate R b data;
          b1 = push R b mv;
          mover = turn R (cur b)
      in side_list mover (captured_pieces s')
           = side_list mover (captured_pieces s)
             @ (if is_capture R (cur b) mv then [symbol (the (captured_piece R b mv))] else [])
       \<and> side_list (\<not> mover) (captured_pieces s')
           = side_list (\<not> mover) (captured_pieces s)
             @ (if ai_moved \<and> is_capture R (cur b1) (engine b1)
                then [symbol (the (captured_piece R b1 (engine b1)))] else []))"

text \<open>
  The sessions a client can bring about: the one \<open>new_game\<close> stores, and those left by an
  accepted move (where the engine, if asked, answers with a legal move) or by a
  successful undo.
\<close>

inductive reachable :: "'p rules \<Rightarrow> 'p game_session \<Rightarrow> bool" for R :: "'p rules" where
  by_new_game:
    "new_game R games game_id = (resp, games', cookie) \<Longrightarrow> games' game_id = Some s
     \<Longrightarrow> reachable R s"
| by_make_move:
    "reachable R s \<Longrightarrow> games game_id = Some s \<Longrightarrow> game_id \<noteq> [] \<Longrightarrow>
     make_move R engine games (Some game_id) data = (MoveOk st ai_moved, games') \<Longrightarrow>
     (ai_moved \<longrightarrow>
        engine (push R (board s) (candidate R (board s) data))
          \<in> set (legal_moves R (apply_move R (cur (board s)) (candidate R (board s) data)))) \<Longrightarrow>
     games' game_id = Some s' \<Longrightarrow> reachable R s'"
| by_undo_move:
    "reachable R s \<Longrightarrow> games game_id = Some s \<Longrightarrow> game_id \<noteq> [] \<Longrightarrow>
     undo_move R games (Some game_id) = Inr (StateOk st, games') \<Longrightarrow>
     games' game_id = Some s' \<Longrightarrow> reachable R s'"

section \<open>Two recorded games\<close>

definition req :: "int \<Rightarrow> int \<Rightarrow> int \<Rightarrow> int \<Rightarrow> move_request" where
  "req fr fc tr tc = \<lparr>from_row = fr, from_col = fc, to_row = tr, to_col = tc\<rparr>"

text \<open>
  First game: 1. e4 e5 2. Qh5 Ke7 3. Qxe5 mate. The player's third move captures a pawn
  and ends the game, so no reply follows it. \<open>queen_mate_4\<close> is the session after one
  undo request.
\<close>

definition queen_mate_0 :: "position game_session" where
  "queen_mate_0 = new_session chess"

definition queen_mate_1 :: "position game_session" where
  "queen_mate_1 = engine_moved chess (player_moved chess queen_mate_0 (Move 12 28)) (Move 52 36)"

definition queen_mate_2 :: "position game_session" where
  "queen_mate_2 = engine_moved chess (player_moved chess queen_mate_1 (Move 3 39)) (Move 60 52)"

definition queen_mate_3 :: "position game_session" where
  "queen_mate_3 = player_moved chess queen_mate_2 (Move 39 36)"

definition queen_mate_4 :: "position game_session" where
  "queen_mate_4 =
     \<lparr>board = board (player_moved chess queen_mate_1 (Move 3 39)),
      captured_pieces = \<lparr>white = ''p'', black = []\<rparr>\<rparr>"

text \<open>
  Second game: 1. e4 f5 2. d3 g5 3. Qh5 mate, one undo request (\<open>fools_mate_4\<close>, Black to
  move), and then the player submits f5xe4, which the engine answers with Nc3.
\<close>

definition fools_mate_0 :: "position game_session" where
  "fools_mate_0 = new_session chess"

definition fools_mate_1 :: "position game_session" where
  "fools_mate_1 = engine_moved chess (player_moved chess fools_mate_0 (Move 12 28)) (Move 53 37)"

definition fools_mate_2 :: "position game_session" where
  "fools_mate_2 = engine_moved chess (player_moved chess fools_mate_1 (Move 11 19)) (Move 54 38)"

definition fools_mate_3 :: "position game_session" where
  "fools_mate_3 = player_moved chess fools_mate_2 (Move 3 39)"

definition fools_mate_4 :: "position game_session" where
  "fools_mate_4 =
     \<lparr>board = board (player_moved chess fools_mate_1 (Move 11 19)),
      captured_pieces = \<lparr>white = [], black = []\<rparr>\<rparr>"

definition fools_mate_5 :: "position game_session" where
  "fools_mate_5 = engine_moved chess (player_moved chess fools_mate_4 (Move 37 28)) (Move 1 18)"

section \<open>Basic facts about the server functions\<close>

lemma game_state_to_dict_some:
  "games game_id = Some s \<Longrightarrow> game_state_to_dict R games game_id = (Some (state_dict R s), games)"
  by (simp add: game_state_to_dict_def)

lemma game_state_to_dict_games: "snd (game_state_to_dict R games game_id) = games"
  by (simp add: game_state_to_dict_def split: option.splits)

lemma game_state_to_dict_eq:
  "game_state_to_dict R games game_id = (fst (game_state_to_dict R games game_id), games)"
  by (metis prod.collapse game_state_to_dict_games)

lemma get_game_state_route_games: "snd (get_game_state_route R games cookie) = games"
  by (subst get_game_state_route_def, subst game_state_to_dict_eq) simp

lemma new_game_session:
  "new_game R games game_id
     = (NewGameOk game_id (Some (state_dict R (new_session R))),
        games(game_id \<mapsto> new_session R), Some game_id)"
  by (simp add: new_game_def Let_def game_state_to_dict_some)

lemma make_move_accepted:
  assumes "games game_id = Some s" and "game_id \<noteq> []"
      and "candidate R (board s) data \<in> set (legal_moves R (cur (board s)))"
  shows "make_move R engine games (Some game_id) data =
           (let s1 = player_moved R s (candidate R (board s) data) in
            if is_game_over R (board s1)
            then (MoveOk (Some (state_dict R s1)) False, games(game_id \<mapsto> s1))
            else (MoveOk (Some (state_dict R (engine_moved R s1 (engine (board s1))))) True,
                  games(game_id \<mapsto> engine_moved R s1 (engine (board s1)))))"
  using assms
  by (simp add: make_move_def no_active_game_def Let_def player_moved_def engine_moved_def
      game_state_to_dict_some)

lemma make_move_rejected:
  assumes "games game_id = Some s" and "game_id \<noteq> []"
      and "candidate R (board s) data \<notin> set (legal_moves R (cur (board s)))"
  shows "make_move R engine games (Some game_id) data = (Failure ''Invalid move'', games)"
  using assms by (simp add: make_move_def no_active_game_def Let_def)

lemma track_capture_legal:
  assumes "origin_occupied R" and "m \<in> set (legal_moves R (cur b))"
  shows "captured_piece R b m \<noteq> None"
    and "track_capture R b m xs =
           (if is_capture R (cur b) m then xs @ [symbol (the (captured_piece R b m))] else xs)"
proof -
  from assms have "piece_at R (cur b) (from_square m) \<noteq> None"
    by (simp add: origin_occupied_def)
  then show some: "captured_piece R b m \<noteq> None"
    by (simp add: captured_piece_def split: option.splits)
  then show "track_capture R b m xs =
           (if is_capture R (cur b) m then xs @ [symbol (the (captured_piece R b m))] else xs)"
    by (auto simp: track_capture_def)
qed

lemma two_last: "2 \<le> length xs \<Longrightarrow> \<exists>ys a b. xs = ys @ [a, b]"
proof -
  assume len: "2 \<le> length xs"
  then obtain zs b where xs: "xs = zs @ [b]"
    by (cases xs rule: rev_cases) auto
  with len obtain ys a where "zs = ys @ [a]"
    by (cases zs rule: rev_cases) auto
  with xs show ?thesis by simp
qed

lemma undo_exchange_two:
  assumes "history (board s) = hs @ [(p1, m1), (p2, m2)]"
  shows "undo_exchange R s =
           Inr (m2, m1,
                \<lparr>board = \<lparr>cur = p1, history = hs\<rparr>,
                 captured_pieces =
                   \<lparr>white = (if is_capture R p1 m1 \<and> white (captured_pieces s) \<noteq> []
                             then butlast (white (captured_pieces s))
                             else white (captured_pieces s)),
                    black = (if is_capture R p2 m2 \<and> black (captured_pieces s) \<noteq> []
                             then butlast (black (captured_pieces s))
                             else black (captured_pieces s))\<rparr>\<rparr>)"
  using assms
  by (simp add: undo_exchange_def pop_def and_then_def list_pop_def butlast_append)

lemma undo_move_two:
  assumes "games game_id = Some s" and "game_id \<noteq> []"
      and "undo_exchange R s = Inr (ai_move, player_move, s')"
      and "2 \<le> length (move_stack (board s))"
  shows "undo_move R games (Some game_id)
           = Inr (StateOk (Some (state_dict R s')), games(game_id \<mapsto> s'))"
  using assms
  by (simp add: undo_move_def no_active_game_def Let_def and_then_def game_state_to_dict_some)

lemma undo_exchange_after_pair:
  assumes "origin_occupied R"
      and "mv \<in> set (legal_moves R (cur (board s)))"
      and "ai \<in> set (legal_moves R (cur (board (player_moved R s mv))))"
  shows "undo_exchange R (engine_moved R (player_moved R s mv) ai) = Inr (ai, mv, s)"
proof -
  let ?s1 = "player_moved R s mv"
  let ?s2 = "engine_moved R ?s1 ai"
  have h: "history (board ?s2)
             = history (board s) @ [(cur (board s), mv), (cur (board ?s1), ai)]"
    by (simp add: engine_moved_def player_moved_def push_def)
  have w: "white (captured_pieces ?s2)
             = (if is_capture R (cur (board s)) mv
                then white (captured_pieces s) @ [symbol (the (captured_piece R (board s) mv))]
                else white (captured_pieces s))"
    using track_capture_legal(2) [OF assms(1,2)]
    by (simp add: engine_moved_def player_moved_def)
  have b: "black (captured_pieces ?s2)
             = (if is_capture R (cur (board ?s1)) ai
                then black (captured_pieces s) @ [symbol (the (captured_piece R (board ?s1) ai))]
                else black (captured_pieces s))"
    using track_capture_legal(2) [OF assms(1,3)]
    by (simp add: engine_moved_def player_moved_def)
  show ?thesis
    by (simp add: undo_exchange_two [OF h] w b)
qed

lemma capture_count_push:
  "capture_count R (push R b m)
     = capture_count R b + (if is_capture R (cur b) m then 1 else 0)"
  by (simp add: capture_count_def push_def)

lemma track_capture_length:
  assumes "origin_occupied R" and "m \<in> set (legal_moves R (cur b))"
  shows "length (track_capture R b m xs)
           = length xs + (if is_capture R (cur b) m then 1 else 0)"
  by (simp add: track_capture_legal(2) [OF assms])

text \<open>
  An accepted move keeps the bookkeeping: if the two capture lists together are as long
  as the number of capturing moves on the stack before the request, they are so after
  it. (The loss of this equality shown under C1 below comes from the undo route alone.)
\<close>

lemma accepted_move_keeps_totals:
  assumes "origin_occupied R"
      and "games game_id = Some s" and "game_id \<noteq> []"
      and "make_move R engine games (Some game_id) data = (MoveOk st ai_moved, games')"
      and "ai_moved \<longrightarrow>
             engine (push R (board s) (candidate R (board s) data))
               \<in> set (legal_moves R (apply_move R (cur (board s)) (candidate R (board s) data)))"
      and "length (white (captured_pieces s)) + length (black (captured_pieces s))
             = capture_count R (board s)"
  shows "\<exists>s'. games' game_id = Some s'
            \<and> length (white (captured_pieces s')) + length (black (captured_pieces s'))
                = capture_count R (board s')"
proof -
  let ?mv = "candidate R (board s) data"
  let ?s1 = "player_moved R s ?mv"
  let ?ai = "engine (board ?s1)"
  let ?s2 = "engine_moved R ?s1 ?ai"
  have legal: "?mv \<in> set (legal_moves R (cur (board s)))"
  proof (rule ccontr)
    assume "?mv \<notin> set (legal_moves R (cur (board s)))"
    from make_move_rejected [where games = games and engine = engine, OF assms(2,3) this] assms(4)
    show False by simp
  qed
  have one: "length (white (captured_pieces ?s1)) + length (black (captured_pieces ?s1))
               = capture_count R (board ?s1)"
    using assms(6) track_capture_length [OF assms(1) legal]
    by (simp add: player_moved_def capture_count_push)
  note mm = make_move_accepted [where games = games and engine = engine, OF assms(2,3) legal]
  show ?thesis
  proof (cases "is_game_over R (board ?s1)")
    case True
    with mm assms(4) have "games' = games(game_id \<mapsto> ?s1)"
      by (simp add: Let_def)
    with one show ?thesis
      by simp
  next
    case False
    with mm assms(4) have stored: "games' = games(game_id \<mapsto> ?s2)" and ai: "ai_moved"
      by (simp_all add: Let_def)
    from ai assms(5) have reply: "?ai \<in> set (legal_moves R (cur (board ?s1)))"
      by (simp add: player_moved_def push_def)
    have "length (white (captured_pieces ?s2)) + length (black (captured_pieces ?s2))
               = capture_count R (board ?s2)"
      using one track_capture_length [OF assms(1) reply]
      by (simp add: engine_moved_def capture_count_push)
    with stored show ?thesis
      by simp
  qed
qed

text \<open>
  What the undo route does in every existing session: it answers ``Cannot undo'' exactly
  when fewer than two moves are on the move stack, and then changes nothing; otherwise
  it pops the last move first and the one before it second, leaves the stack two moves
  shorter and answers with the snapshot of the session it stored.
\<close>

lemma undo_move_pops_last_two:
  assumes "games game_id = Some s" and "game_id \<noteq> []"
  shows "(undo_move R games (Some game_id) = Inr (Failure ''Cannot undo'', games))
           = (length (move_stack (board s)) < 2)
       \<and> (2 \<le> length (move_stack (board s)) \<longrightarrow>
            (\<exists>s'. undo_exchange R s
                     = Inr (last (move_stack (board s)), last (butlast (move_stack (board s))), s')
                 \<and> move_stack (board s') = butlast (butlast (move_stack (board s)))
                 \<and> undo_move R games (Some game_id)
                     = Inr (StateOk (Some (state_dict R s')), games(game_id \<mapsto> s'))))"
proof (cases "2 \<le> length (move_stack (board s))")
  case False
  with assms show ?thesis
    by (simp add: undo_move_def no_active_game_def Let_def)
next
  case True
  then have "2 \<le> length (history (board s))"
    by (simp add: move_stack_def)
  then obtain hs x y where "history (board s) = hs @ [x, y]"
    using two_last by blast
  then have h: "history (board s) = hs @ [(fst x, snd x), (fst y, snd y)]"
    by simp
  note ex = undo_exchange_two [OF h, of R]
  have ms: "move_stack (board s) = map snd hs @ [snd x, snd y]"
    using h by (simp add: move_stack_def)
  from assms True ex ms show ?thesis
    by (simp add: undo_move_def no_active_game_def Let_def and_then_def
        game_state_to_dict_some move_stack_def butlast_append)
qed

text \<open>How sessions are reached, on a one-entry session table.\<close>

lemma reachable_new: "reachable R (new_session R)"
proof -
  have "new_game R Map.empty ''g''
          = (NewGameOk ''g'' (Some (state_dict R (new_session R))),
             [''g'' \<mapsto> new_session R], Some ''g'')"
    by (rule new_game_session)
  then show ?thesis
    by (rule by_new_game) simp
qed

lemma reachable_reply:
  assumes "reachable R s"
      and "candidate R (board s) data = mv"
      and "mv \<in> set (legal_moves R (cur (board s)))"
      and "\<not> is_game_over R (board (player_moved R s mv))"
      and "ai \<in> set (legal_moves R (cur (board (player_moved R s mv))))"
  shows "reachable R (engine_moved R (player_moved R s mv) ai)"
proof -
  let ?games = "[''g'' \<mapsto> s]"
  let ?s' = "engine_moved R (player_moved R s mv) ai"
  have entry: "?games ''g'' = Some s" and name: "''g'' \<noteq> []"
    by simp_all
  have legal: "candidate R (board s) data \<in> set (legal_moves R (cur (board s)))"
    using assms(2,3) by simp
  have mm: "make_move R (\<lambda>b. ai) ?games (Some ''g'') data
          = (MoveOk (Some (state_dict R ?s')) True, ?games(''g'' \<mapsto> ?s'))"
    unfolding make_move_accepted [where games = "?games" and game_id = "''g''", OF entry name legal]
    using assms(2,4) by (simp add: Let_def)
  have reply: "True \<longrightarrow> (\<lambda>b. ai) (push R (board s) (candidate R (board s) data))
          \<in> set (legal_moves R (apply_move R (cur (board s)) (candidate R (board s) data)))"
    using assms(2,5) by (simp add: player_moved_def push_def)
  have stored: "(?games(''g'' \<mapsto> ?s')) ''g'' = Some ?s'"
    by simp
  show ?thesis
    by (rule by_make_move [where games = "?games" and game_id = "''g''", OF assms(1) entry name mm reply stored])
qed

lemma reachable_final:
  assumes "reachable R s"
      and "candidate R (board s) data = mv"
      and "mv \<in> set (legal_moves R (cur (board s)))"
      and "is_game_over R (board (player_moved R s mv))"
  shows "reachable R (player_moved R s mv)"
proof -
  let ?games = "[''g'' \<mapsto> s]"
  let ?s' = "player_moved R s mv"
  have entry: "?games ''g'' = Some s" and name: "''g'' \<noteq> []"
    by simp_all
  have legal: "candidate R (board s) data \<in> set (legal_moves R (cur (board s)))"
    using assms(2,3) by simp
  have mm: "make_move R (\<lambda>b. mv) ?games (Some ''g'') data
          = (MoveOk (Some (state_dict R ?s')) False, ?games(''g'' \<mapsto> ?s'))"
    unfolding make_move_accepted [where games = "?games" and game_id = "''g''", OF entry name legal]
    using assms(2,4) by (simp add: Let_def)
  have reply: "False \<longrightarrow> (\<lambda>b. mv) (push R (board s) (candidate R (board s) data))
          \<in> set (legal_moves R (apply_move R (cur (board s)) (candidate R (board s) data)))"
    by simp
  have stored: "(?games(''g'' \<mapsto> ?s')) ''g'' = Some ?s'"
    by simp
  show ?thesis
    by (rule by_make_move [where games = "?games" and game_id = "''g''", OF assms(1) entry name mm reply stored])
qed

lemma reachable_undo:
  assumes "reachable R s"
      and "undo_exchange R s = Inr (ai_move, player_move, s')"
      and "2 \<le> length (move_stack (board s))"
  shows "reachable R s'"
proof -
  let ?games = "[''g'' \<mapsto> s]"
  have entry: "?games ''g'' = Some s" and name: "''g'' \<noteq> []"
    by simp_all
  have um: "undo_move R ?games (Some ''g'')
          = Inr (StateOk (Some (state_dict R s')), ?games(''g'' \<mapsto> s'))"
    by (rule undo_move_two [where games = "?games" and game_id = "''g''", OF entry name assms(2,3)])
  have stored: "(?games(''g'' \<mapsto> s')) ''g'' = Some s'"
    by simp
  show ?thesis
    by (rule by_undo_move [where games = "?games" and game_id = "''g''", OF assms(1) entry name um stored])
qed

section \<open>The rules of chess meet what the server relies on\<close>

lemma square_file_rank: "square (square_file sq) (square_rank sq) = sq"
  by (simp add: square_def square_file_def square_rank_def)

lemma on_board_square: "on_board f r \<Longrightarrow> 0 \<le> square f r \<and> square f r < 64"
  by (auto simp: on_board_def square_def)

lemma squares_range: "sq \<in> set squares \<longleftrightarrow> 0 \<le> sq \<and> sq < 64"
  by (auto simp: squares_def)

lemma on_board_file_rank: "0 \<le> sq \<Longrightarrow> sq < 64 \<Longrightarrow> on_board (square_file sq) (square_rank sq)"
  by (auto simp: on_board_def square_file_def square_rank_def)

lemma at_Some_on_board: "at p f r = Some pc \<Longrightarrow> on_board f r"
  by (simp add: at_def split: if_splits)

lemma promote_moves: "m \<in> set (promote c f t) \<Longrightarrow> from_square m = f \<and> to_square m = t"
  by (auto simp: promote_def Move_def split: if_splits)

lemma ray_on_board: "t \<in> set (ray p c f r df dr n) \<Longrightarrow> 0 \<le> t \<and> t < 64"
proof (induction n arbitrary: f r)
  case 0
  then show ?case by simp
next
  case (Suc n)
  then show ?case
    by (auto simp: on_board_square split: if_splits option.splits)
qed

lemma slide_on_board: "t \<in> set (slide p c f r dirs) \<Longrightarrow> 0 \<le> t \<and> t < 64"
  by (auto simp: slide_def dest: ray_on_board)

lemma step_on_board: "t \<in> set (step p c f r offsets) \<Longrightarrow> 0 \<le> t \<and> t < 64"
  by (auto simp: step_def free_for_def on_board_square)

lemma pawn_moves_from: "m \<in> set (pawn_moves p c f r) \<Longrightarrow> from_square m = square f r"
  by (auto simp: pawn_moves_def Let_def Move_def dest: promote_moves split: if_splits)

lemma enemy_at_on_board: "enemy_at p c g s \<Longrightarrow> on_board g s"
  by (auto simp: enemy_at_def dest: at_Some_on_board split: option.splits)

lemma pawn_moves_to:
  assumes "m \<in> set (pawn_moves p c f r)" and "on_board f r"
  shows "0 \<le> to_square m \<and> to_square m < 64"
  using assms
  by (auto simp: pawn_moves_def Let_def Move_def on_board_def square_def forward_def
           dest!: promote_moves enemy_at_on_board split: if_splits)

lemma castling_moves_from: "m \<in> set (castling_moves p c f r) \<Longrightarrow> from_square m = square f r"
  by (auto simp: castling_moves_def Move_def split: if_splits)

lemma castling_moves_to: "m \<in> set (castling_moves p c f r) \<Longrightarrow> 0 \<le> to_square m \<and> to_square m < 64"
  by (auto simp: castling_moves_def Move_def square_def split: if_splits)

lemma piece_moves_from: "m \<in> set (piece_moves p pc f r) \<Longrightarrow> from_square m = square f r"
  by (cases "piece_type pc")
     (auto simp: piece_moves_def Move_def dest: pawn_moves_from castling_moves_from)

lemma piece_moves_to:
  assumes "m \<in> set (piece_moves p pc f r)" and "on_board f r"
  shows "0 \<le> to_square m \<and> to_square m < 64"
  using assms
  by (cases "piece_type pc")
     (auto simp: piece_moves_def Move_def
           dest: pawn_moves_to castling_moves_to slide_on_board step_on_board)

lemma moves_from_origin:
  assumes "m \<in> set (moves_from p sq)"
  shows "from_square m = sq \<and> chess_piece_at p sq \<noteq> None"
proof (cases "chess_piece_at p sq")
  case None
  with assms show ?thesis by (simp add: moves_from_def)
next
  case (Some pc)
  with assms have "m \<in> set (piece_moves p pc (square_file sq) (square_rank sq))"
    by (simp add: moves_from_def split: if_splits)
  then have "from_square m = sq"
    using piece_moves_from square_file_rank by metis
  with Some show ?thesis by simp
qed

lemma moves_from_to:
  "m \<in> set (moves_from p sq) \<Longrightarrow> 0 \<le> sq \<Longrightarrow> sq < 64 \<Longrightarrow> 0 \<le> to_square m \<and> to_square m < 64"
  by (auto simp: moves_from_def on_board_file_rank dest: piece_moves_to
           split: option.splits if_splits)

lemma legal_moves_pseudo:
  "m \<in> set (chess_legal_moves p) \<Longrightarrow> \<exists>sq. 0 \<le> sq \<and> sq < 64 \<and> m \<in> set (moves_from p sq)"
  by (auto simp: chess_legal_moves_def pseudo_legal_moves_def squares_range)

lemma chess_origin_occupied: "origin_occupied chess"
  unfolding origin_occupied_def
proof (intro allI impI)
  fix p m
  assume "m \<in> set (legal_moves chess p)"
  then have "m \<in> set (chess_legal_moves p)"
    by (simp add: chess_def)
  then obtain sq where "m \<in> set (moves_from p sq)"
    using legal_moves_pseudo by blast
  then have "chess_piece_at p (from_square m) \<noteq> None"
    using moves_from_origin by blast
  then show "piece_at chess p (from_square m) \<noteq> None"
    by (simp add: chess_def)
qed

lemma chess_destinations_on_board: "destinations_on_board chess"
  unfolding destinations_on_board_def
proof (intro allI impI)
  fix p m
  assume "m \<in> set (legal_moves chess p)"
  then have "m \<in> set (chess_legal_moves p)"
    by (simp add: chess_def)
  then obtain sq where "0 \<le> sq" "sq < 64" "m \<in> set (moves_from p sq)"
    using legal_moves_pseudo by blast
  then show "0 \<le> to_square m \<and> to_square m < 64"
    using moves_from_to by blast
qed

section \<open>Facts about the first recorded game\<close>

lemma queen_mate_move1:
  "candidate chess (board queen_mate_0) (req 6 4 4 4) = Move 12 28"
  "Move 12 28 \<in> set (legal_moves chess (cur (board queen_mate_0)))"
  "\<not> is_game_over chess (board (player_moved chess queen_mate_0 (Move 12 28)))"
  "Move 52 36 \<in> set (legal_moves chess (cur (board (player_moved chess queen_mate_0 (Move 12 28)))))"
  by code_simp+

lemma queen_mate_move2:
  "candidate chess (board queen_mate_1) (req 7 3 3 7) = Move 3 39"
  "Move 3 39 \<in> set (legal_moves chess (cur (board queen_mate_1)))"
  "\<not> is_game_over chess (board (player_moved chess queen_mate_1 (Move 3 39)))"
  "Move 60 52 \<in> set (legal_moves chess (cur (board (player_moved chess queen_mate_1 (Move 3 39)))))"
  by code_simp+

lemma queen_mate_move3:
  "candidate chess (board queen_mate_2) (req 3 7 3 4) = Move 39 36"
  "Move 39 36 \<in> set (legal_moves chess (cur (board queen_mate_2)))"
  "is_game_over chess (board (player_moved chess queen_mate_2 (Move 39 36)))"
  by code_simp+

lemma queen_mate_captures:
  "is_capture chess (cur (board queen_mate_2)) (Move 39 36)"
  "\<not> is_capture chess (cur (board (player_moved chess queen_mate_1 (Move 3 39)))) (Move 60 52)"
  "captured_pieces queen_mate_3 = \<lparr>white = ''p'', black = []\<rparr>"
  "capture_count chess (board queen_mate_4) = 0"
  "move_stack (board queen_mate_4) = [Move 12 28, Move 52 36, Move 3 39]"
  "move_stack (board queen_mate_3) = [Move 12 28, Move 52 36, Move 3 39, Move 60 52, Move 39 36]"
  "capture_count chess (board queen_mate_3) = 1"
  by code_simp+

lemma queen_mate_undo:
  "undo_exchange chess queen_mate_3 = Inr (Move 39 36, Move 60 52, queen_mate_4)"
proof -
  let ?s = "player_moved chess queen_mate_1 (Move 3 39)"
  have h: "history (board queen_mate_3)
             = history (board ?s) @ [(cur (board ?s), Move 60 52),
                                     (cur (board queen_mate_2), Move 39 36)]"
    by (simp add: queen_mate_3_def queen_mate_2_def player_moved_def engine_moved_def push_def)
  show ?thesis
    unfolding undo_exchange_two [OF h]
    using queen_mate_captures(1,2)
    by (simp add: queen_mate_captures(3) queen_mate_4_def chess_def)
qed

lemma queen_mate_reachable:
  "reachable chess queen_mate_1" "reachable chess queen_mate_2"
  "reachable chess queen_mate_3" "reachable chess queen_mate_4"
proof -
  have r0: "reachable chess queen_mate_0"
    unfolding queen_mate_0_def by (rule reachable_new)
  show r1: "reachable chess queen_mate_1"
    unfolding queen_mate_1_def
    by (rule reachable_reply [OF r0 queen_mate_move1])
  show r2: "reachable chess queen_mate_2"
    unfolding queen_mate_2_def
    by (rule reachable_reply [OF r1 queen_mate_move2])
  show r3: "reachable chess queen_mate_3"
    unfolding queen_mate_3_def
    by (rule reachable_final [OF r2 queen_mate_move3])
  show "reachable chess queen_mate_4"
    by (rule reachable_undo [OF r3 queen_mate_undo])
       (simp add: queen_mate_captures(6))
qed

lemma pawn_three_ranks_illegal:
  "candidate chess (board queen_mate_0) (req 6 4 3 4)
     \<notin> set (legal_moves chess (cur (board queen_mate_0)))"
  by code_simp

section \<open>Facts about the second recorded game\<close>

lemma fools_mate_move1:
  "candidate chess (board fools_mate_0) (req 6 4 4 4) = Move 12 28"
  "Move 12 28 \<in> set (legal_moves chess (cur (board fools_mate_0)))"
  "\<not> is_game_over chess (board (player_moved chess fools_mate_0 (Move 12 28)))"
  "Move 53 37 \<in> set (legal_moves chess (cur (board (player_moved chess fools_mate_0 (Move 12 28)))))"
  by code_simp+

lemma fools_mate_move2:
  "candidate chess (board fools_mate_1) (req 6 3 5 3) = Move 11 19"
  "Move 11 19 \<in> set (legal_moves chess (cur (board fools_mate_1)))"
  "\<not> is_game_over chess (board (player_moved chess fools_mate_1 (Move 11 19)))"
  "Move 54 38 \<in> set (legal_moves chess (cur (board (player_moved chess fools_mate_1 (Move 11 19)))))"
  by code_simp+

lemma fools_mate_move3:
  "candidate chess (board fools_mate_2) (req 7 3 3 7) = Move 3 39"
  "Move 3 39 \<in> set (legal_moves chess (cur (board fools_mate_2)))"
  "is_game_over chess (board (player_moved chess fools_mate_2 (Move 3 39)))"
  by code_simp+

lemma fools_mate_move4:
  "candidate chess (board fools_mate_4) (req 3 5 4 4) = Move 37 28"
  "Move 37 28 \<in> set (legal_moves chess (cur (board fools_mate_4)))"
  "\<not> is_game_over chess (board (player_moved chess fools_mate_4 (Move 37 28)))"
  "Move 1 18 \<in> set (legal_moves chess (cur (board (player_moved chess fools_mate_4 (Move 37 28)))))"
  by code_simp+

lemma fools_mate_captures:
  "\<not> is_capture chess (cur (board fools_mate_2)) (Move 3 39)"
  "\<not> is_capture chess (cur (board (player_moved chess fools_mate_1 (Move 11 19)))) (Move 54 38)"
  "captured_pieces fools_mate_3 = \<lparr>white = [], black = []\<rparr>"
  "move_stack (board fools_mate_3) = [Move 12 28, Move 53 37, Move 11 19, Move 54 38, Move 3 39]"
  "move_stack (board fools_mate_4) = [Move 12 28, Move 53 37, Move 11 19]"
  "turn chess (cur (board fools_mate_4)) = BLACK"
  "is_capture chess (cur (board fools_mate_4)) (Move 37 28)"
  "captured_pieces fools_mate_4 = \<lparr>white = [], black = []\<rparr>"
  "captured_pieces fools_mate_5 = \<lparr>white = ''P'', black = []\<rparr>"
  by code_simp+

lemma fools_mate_undo:
  "undo_exchange chess fools_mate_3 = Inr (Move 3 39, Move 54 38, fools_mate_4)"
proof -
  let ?s = "player_moved chess fools_mate_1 (Move 11 19)"
  have h: "history (board fools_mate_3)
             = history (board ?s) @ [(cur (board ?s), Move 54 38),
                                     (cur (board fools_mate_2), Move 3 39)]"
    by (simp add: fools_mate_3_def fools_mate_2_def player_moved_def engine_moved_def push_def)
  show ?thesis
    unfolding undo_exchange_two [OF h]
    using fools_mate_captures(1,2)
    by (simp add: fools_mate_captures(3) fools_mate_4_def chess_def)
qed

lemma fools_mate_reachable:
  "reachable chess fools_mate_4" "reachable chess fools_mate_5"
proof -
  have r0: "reachable chess fools_mate_0"
    unfolding fools_mate_0_def by (rule reachable_new)
  have r1: "reachable chess fools_mate_1"
    unfolding fools_mate_1_def
    by (rule reachable_reply [OF r0 fools_mate_move1])
  have r2: "reachable chess fools_mate_2"
    unfolding fools_mate_2_def
    by (rule reachable_reply [OF r1 fools_mate_move2])
  have r3: "reachable chess fools_mate_3"
    unfolding fools_mate_3_def
    by (rule reachable_final [OF r2 fools_mate_move3])
  show r4: "reachable chess fools_mate_4"
    by (rule reachable_undo [OF r3 fools_mate_undo])
       (simp add: fools_mate_captures(4))
  show "reachable chess fools_mate_5"
    unfolding fools_mate_5_def
    by (rule reachable_reply [OF r4 fools_mate_move4])
qed

lemma fools_mate_not_credited:
  "\<not> credited_to_movers chess (\<lambda>b. Move 1 18) fools_mate_4 (req 3 5 4 4) True fools_mate_5"
  by code_simp

lemma queen_mate_credited_facts:
  "turn chess (cur (board queen_mate_2)) = WHITE"
  "credited_to_movers chess (\<lambda>b. Move 0 0) queen_mate_2 (req 3 7 3 4) False queen_mate_3"
  by code_simp+

section \<open>Facts about the initial position and about coordinates\<close>

lemma start_facts:
  "\<not> is_game_over chess (Board chess)"
  "\<not> is_check chess (start chess)"
  "turn chess (start chess) = WHITE"
  by code_simp+

lemma chess_start_pieces: "piece_at chess (start chess) sq = start_pieces sq"
  by (simp add: chess_def chess_piece_at_def chess_start_def start_pieces_def)

lemma start_valid_moves:
  "fst (get_valid_moves chess [''g'' \<mapsto> queen_mate_0] (Some ''g'') 6 4)
     = ValidMovesOk [(5, 4), (4, 4)]"
  "fst (get_valid_moves chess [''g'' \<mapsto> queen_mate_0] (Some ''g'') 4 4) = ValidMovesOk []"
  "piece_at chess (cur (board queen_mate_0)) (square 4 (7 - 4)) = None"
  by code_simp+

lemma coordinates_of_square:
  assumes "0 \<le> t" and "t < 64"
  shows "0 \<le> 7 - square_rank t" "7 - square_rank t < 8" "0 \<le> square_file t" "square_file t < 8"
    and "square (square_file t) (7 - (7 - square_rank t)) = t"
  using assms by (auto simp: square_rank_def square_file_def square_def)

lemma square_of_coordinates:
  assumes "0 \<le> c" and "c < 8"
  shows "7 - square_rank (square c (7 - r)) = r" and "square_file (square c (7 - r)) = c"
  using assms unfolding square_rank_def square_file_def square_def by presburger+

lemma coords_member:
  assumes "\<And>m. m \<in> set ms \<Longrightarrow> 0 \<le> to_square m \<and> to_square m < 64"
  shows "(r, c) \<in> set (map (\<lambda>m. (7 - square_rank (to_square m), square_file (to_square m))) ms)
         \<longleftrightarrow> 0 \<le> r \<and> r < 8 \<and> 0 \<le> c \<and> c < 8
             \<and> (\<exists>m \<in> set ms. to_square m = square c (7 - r))"
    (is "?lhs \<longleftrightarrow> ?rhs")
proof
  assume ?lhs
  then obtain m where m: "m \<in> set ms"
      and r: "r = 7 - square_rank (to_square m)" and c: "c = square_file (to_square m)"
    by auto
  from assms [OF m] have "0 \<le> to_square m" and "to_square m < 64"
    by simp_all
  note k = coordinates_of_square [OF this]
  have "to_square m = square c (7 - r)"
    unfolding r c using k(5) by simp
  with m k(1-4) show ?rhs
    unfolding r c by blast
next
  assume ?rhs
  then obtain m where m: "m \<in> set ms" and t: "to_square m = square c (7 - r)"
      and c: "0 \<le> c" "c < 8"
    by blast
  have "(7 - square_rank (to_square m), square_file (to_square m)) = (r, c)"
    unfolding t using square_of_coordinates [OF c, of r] by simp
  with m show ?lhs
    by (metis (mono_tags, lifting) image_eqI set_map)
qed

section \<open>Properties\<close>

text \<open>
  C1 (capture bookkeeping). The claim: in every reachable session the two capture lists
  together are as long as the number of capturing moves on the move stack. The undo
  route takes the last move for the engine's and the one before for the player's; when
  the game ended on the player's move it is the other way round. After
  1. e4 e5 2. Qh5 Ke7 3. Qxe5 mate the lists hold one symbol for one capturing move; one
  undo request later the stack holds e4, e5, Qh5, none of them a capture, and White's
  list still holds the pawn, because the removal was tried on Black's empty list.
\<close>

theorem undo_after_final_capture_keeps_symbol:
  "reachable chess queen_mate_3
   \<and> length (white (captured_pieces queen_mate_3)) + length (black (captured_pieces queen_mate_3))
       = capture_count chess (board queen_mate_3)
   \<and> undo_move chess [''g'' \<mapsto> queen_mate_3] (Some ''g'')
       = Inr (StateOk (Some (state_dict chess queen_mate_4)), [''g'' \<mapsto> queen_mate_4])
   \<and> reachable chess queen_mate_4
   \<and> move_stack (board queen_mate_4) = [Move 12 28, Move 52 36, Move 3 39]
   \<and> captured_pieces queen_mate_4 = \<lparr>white = ''p'', black = []\<rparr>
   \<and> capture_count chess (board queen_mate_4) = 0
   \<and> length (white (captured_pieces queen_mate_4)) + length (black (captured_pieces queen_mate_4))
       \<noteq> capture_count chess (board queen_mate_4)"
proof -
  have entry: "[''g'' \<mapsto> queen_mate_3] ''g'' = Some queen_mate_3" and name: "''g'' \<noteq> []"
    by simp_all
  have len: "2 \<le> length (move_stack (board queen_mate_3))"
    by (simp add: queen_mate_captures(6))
  have um: "undo_move chess [''g'' \<mapsto> queen_mate_3] (Some ''g'')
       = Inr (StateOk (Some (state_dict chess queen_mate_4)), [''g'' \<mapsto> queen_mate_4])"
    using undo_move_two [where games = "[''g'' \<mapsto> queen_mate_3]" and game_id = "''g''",
        OF entry name queen_mate_undo len]
    by simp
  have cp4: "captured_pieces queen_mate_4 = \<lparr>white = ''p'', black = []\<rparr>"
    by (simp add: queen_mate_4_def)
  show ?thesis
    using um queen_mate_reachable(3,4)
    by (simp add: queen_mate_captures cp4)
qed

text \<open>
  C2 (an illegal move is rejected and changes nothing). For an existing session and a
  request that names two squares of the board, when the candidate move built from the
  request (with the promotion adjustment) is not among the legal moves of the position,
  \<open>make_move\<close> answers with the failure response and hands the session table back as it
  was, so the position, the move stack and both capture lists of the session are
  untouched.
\<close>

theorem illegal_move_rejected:
  assumes "games game_id = Some s" and "game_id \<noteq> []"
      and "board_squares data"
      and "candidate R (board s) data \<notin> set (legal_moves R (cur (board s)))"
  shows "make_move R engine games (Some game_id) data = (Failure ''Invalid move'', games)"
  using assms by (simp add: make_move_def no_active_game_def Let_def)

theorem illegal_move_rejected_witness:
  "board_squares (req 6 4 3 4)
   \<and> candidate chess (board queen_mate_0) (req 6 4 3 4)
       \<notin> set (legal_moves chess (cur (board queen_mate_0)))
   \<and> make_move chess (\<lambda>b. Move 52 36) [''g'' \<mapsto> queen_mate_0] (Some ''g'') (req 6 4 3 4)
       = (Failure ''Invalid move'', [''g'' \<mapsto> queen_mate_0])"
proof -
  have entry: "[''g'' \<mapsto> queen_mate_0] ''g'' = Some queen_mate_0" and name: "''g'' \<noteq> []"
    by simp_all
  have squares: "board_squares (req 6 4 3 4)"
    by (simp add: board_squares_def req_def)
  show ?thesis
    using illegal_move_rejected [where games = "[''g'' \<mapsto> queen_mate_0]" and game_id = "''g''"
        and R = chess and data = "req 6 4 3 4" and engine = "\<lambda>b. Move 52 36",
        OF entry name squares pawn_three_ranks_illegal]
      pawn_three_ranks_illegal squares
    by simp
qed

text \<open>
  C3 (undo after a paired move restores the session). With a rules library whose legal
  moves start on occupied squares: if \<open>make_move\<close> on a session \<open>s\<close> is accepted and
  the engine answers (\<open>ai_moved\<close> is true) with a legal move, then the next undo request
  succeeds, its snapshot is the snapshot of \<open>s\<close> (board grid, capture lists, side to move
  and all other fields), and the session table is the one from before the move. This
  holds for every session \<open>s\<close>, reachable or not.
\<close>

theorem undo_restores_exchange:
  assumes "origin_occupied R"
      and "games game_id = Some s" and "game_id \<noteq> []"
      and "make_move R engine games (Some game_id) data = (MoveOk st True, games')"
      and "engine (push R (board s) (candidate R (board s) data))
             \<in> set (legal_moves R (apply_move R (cur (board s)) (candidate R (board s) data)))"
  shows "undo_move R games' (Some game_id) = Inr (StateOk (Some (state_dict R s)), games)"
proof -
  let ?mv = "candidate R (board s) data"
  let ?s1 = "player_moved R s ?mv"
  let ?s2 = "engine_moved R ?s1 (engine (board ?s1))"
  have legal: "?mv \<in> set (legal_moves R (cur (board s)))"
  proof (rule ccontr)
    assume "?mv \<notin> set (legal_moves R (cur (board s)))"
    from make_move_rejected [where games = games and engine = engine, OF assms(2,3) this] assms(4)
    show False by simp
  qed
  from make_move_accepted [where games = games and engine = engine, OF assms(2,3) legal] assms(4)
  have stored: "games' = games(game_id \<mapsto> ?s2)"
    by (simp add: Let_def split: if_splits)
  have reply: "engine (board ?s1) \<in> set (legal_moves R (cur (board ?s1)))"
    using assms(5) by (simp add: player_moved_def push_def)
  have ex: "undo_exchange R ?s2 = Inr (engine (board ?s1), ?mv, s)"
    by (rule undo_exchange_after_pair [OF assms(1) legal reply])
  have len: "2 \<le> length (move_stack (board ?s2))"
    by (simp add: engine_moved_def player_moved_def push_def move_stack_def)
  have same: "games(game_id \<mapsto> s) = games"
    using assms(2) by (rule map_upd_triv)
  show ?thesis
    unfolding stored
    using len assms(3)
    by (simp add: undo_move_def no_active_game_def Let_def and_then_def ex
        game_state_to_dict_some same)
qed

theorem undo_restores_exchange_witness:
  "make_move chess (\<lambda>b. Move 52 36) [''g'' \<mapsto> queen_mate_0] (Some ''g'') (req 6 4 4 4)
     = (MoveOk (Some (state_dict chess queen_mate_1)) True, [''g'' \<mapsto> queen_mate_1])
   \<and> undo_move chess [''g'' \<mapsto> queen_mate_1] (Some ''g'')
       = Inr (StateOk (Some (state_dict chess queen_mate_0)), [''g'' \<mapsto> queen_mate_0])"
proof -
  let ?games = "[''g'' \<mapsto> queen_mate_0]"
  have entry: "?games ''g'' = Some queen_mate_0" and name: "''g'' \<noteq> []"
    by simp_all
  have legal: "candidate chess (board queen_mate_0) (req 6 4 4 4)
                 \<in> set (legal_moves chess (cur (board queen_mate_0)))"
    using queen_mate_move1(1,2) by simp
  have mm: "make_move chess (\<lambda>b. Move 52 36) ?games (Some ''g'') (req 6 4 4 4)
     = (MoveOk (Some (state_dict chess queen_mate_1)) True, [''g'' \<mapsto> queen_mate_1])"
    unfolding make_move_accepted [where games = "?games" and game_id = "''g''", OF entry name legal]
    using queen_mate_move1(1,3) by (simp add: Let_def queen_mate_1_def)
  have reply: "(\<lambda>b. Move 52 36) (push chess (board queen_mate_0)
                   (candidate chess (board queen_mate_0) (req 6 4 4 4)))
     \<in> set (legal_moves chess (apply_move chess (cur (board queen_mate_0))
                   (candidate chess (board queen_mate_0) (req 6 4 4 4))))"
    using queen_mate_move1(1,4) by (simp add: player_moved_def push_def)
  show ?thesis
    using undo_restores_exchange [where games = "?games" and game_id = "''g''",
        OF chess_origin_occupied entry name mm reply] mm
    by simp
qed

text \<open>
  C4 (undo needs two moves). The claim: undo fails exactly when fewer than two moves are
  on the stack, and otherwise pops the two most recent moves, the automated reply first
  and then the player's move. The guard is as claimed (\<open>undo_move_pops_last_two\<close> above),
  and so say the route's docstring and its comments on the two pops; but the route pops
  the most recent move first, whoever made it. In the first recorded game the player's
  third move \<open>h5\<close>-\<open>e5\<close> is accepted, ends the game and gets no reply (\<open>ai_moved\<close> is
  false); the undo request that follows succeeds and pops this move of the player first,
  as \<open>ai_move\<close>, and the engine's \<open>e8\<close>-\<open>e7\<close> second, as \<open>player_move\<close>. The
  player's \<open>d1\<close>-\<open>h5\<close>, to which \<open>e8\<close>-\<open>e7\<close> was the reply, stays on the stack.
\<close>

theorem undo_pops_player_move_first:
  "reachable chess queen_mate_2
   \<and> candidate chess (board queen_mate_2) (req 3 7 3 4) = Move 39 36
   \<and> make_move chess (\<lambda>b. Move 0 0) [''g'' \<mapsto> queen_mate_2] (Some ''g'') (req 3 7 3 4)
       = (MoveOk (Some (state_dict chess queen_mate_3)) False, [''g'' \<mapsto> queen_mate_3])
   \<and> move_stack (board queen_mate_3)
       = [Move 12 28, Move 52 36, Move 3 39, Move 60 52, Move 39 36]
   \<and> undo_exchange chess queen_mate_3 = Inr (Move 39 36, Move 60 52, queen_mate_4)
   \<and> undo_move chess [''g'' \<mapsto> queen_mate_3] (Some ''g'')
       = Inr (StateOk (Some (state_dict chess queen_mate_4)), [''g'' \<mapsto> queen_mate_4])
   \<and> move_stack (board queen_mate_4) = [Move 12 28, Move 52 36, Move 3 39]"
proof -
  let ?games = "[''g'' \<mapsto> queen_mate_2]"
  have entry: "?games ''g'' = Some queen_mate_2" and name: "''g'' \<noteq> []"
    by simp_all
  have legal: "candidate chess (board queen_mate_2) (req 3 7 3 4)
                 \<in> set (legal_moves chess (cur (board queen_mate_2)))"
    using queen_mate_move3(1,2) by simp
  have mm: "make_move chess (\<lambda>b. Move 0 0) ?games (Some ''g'') (req 3 7 3 4)
       = (MoveOk (Some (state_dict chess queen_mate_3)) False, [''g'' \<mapsto> queen_mate_3])"
    unfolding make_move_accepted [where games = "?games" and game_id = "''g''", OF entry name legal]
    using queen_mate_move3(1,3) by (simp add: Let_def queen_mate_3_def)
  have entry3: "[''g'' \<mapsto> queen_mate_3] ''g'' = Some queen_mate_3"
    by simp
  have len: "2 \<le> length (move_stack (board queen_mate_3))"
    by (simp add: queen_mate_captures(6))
  have um: "undo_move chess [''g'' \<mapsto> queen_mate_3] (Some ''g'')
       = Inr (StateOk (Some (state_dict chess queen_mate_4)), [''g'' \<mapsto> queen_mate_4])"
    using undo_move_two [where games = "[''g'' \<mapsto> queen_mate_3]" and game_id = "''g''",
        OF entry3 name queen_mate_undo len]
    by simp
  from mm um queen_mate_reachable(2) queen_mate_move3(1) queen_mate_captures(6) queen_mate_undo
    queen_mate_captures(5)
  show ?thesis
    by (intro conjI)
qed

text \<open>
  C5 (the snapshot of a new game). \<open>new_game\<close> has no failure branch. When the library's
  initial position is the standard one (the standard arrangement on the squares, White to
  move, not in check, game not over), the snapshot it returns shows the standard grid
  with the eighth rank in row 0 and White in upper case, \<open>white\<close> as the current player,
  two empty capture lists, an empty move history, no last move, \<open>game_over\<close> false and
  \<open>is_check\<close> false; the session it stores is the new session.
\<close>

theorem new_game_snapshot:
  assumes "\<forall>sq. piece_at R (start R) sq = start_pieces sq"
      and "turn R (start R) = WHITE"
      and "\<not> is_game_over R (Board R)"
      and "\<not> is_check R (start R)"
  shows "\<exists>st. new_game R games game_id
                = (NewGameOk game_id (Some st), games(game_id \<mapsto> new_session R), Some game_id)
            \<and> st_board st = standard_grid
            \<and> st_current_player st = ''white''
            \<and> st_captured_pieces st = \<lparr>white = [], black = []\<rparr>
            \<and> st_move_history st = []
            \<and> st_last_move st = None
            \<and> st_game_over st = False
            \<and> st_is_check st = False"
proof -
  have grid: "board_to_2d_array R (Board R) = standard_grid"
    using assms(1)
    by (simp add: board_to_2d_array_def Board_def standard_grid_def start_pieces_def
        square_def back_rank_def Piece_def symbol_def)
  have "st_board (state_dict R (new_session R)) = standard_grid"
       "st_current_player (state_dict R (new_session R)) = ''white''"
       "st_captured_pieces (state_dict R (new_session R)) = \<lparr>white = [], black = []\<rparr>"
       "st_move_history (state_dict R (new_session R)) = []"
       "st_last_move (state_dict R (new_session R)) = None"
       "st_game_over (state_dict R (new_session R)) = False"
       "st_is_check (state_dict R (new_session R)) = False"
    using assms(2-4) grid
    by (simp_all add: state_dict_def new_session_def Let_def get_last_move_def move_stack_def
        Board_def)
  then show ?thesis
    by (simp add: new_game_session)
qed

theorem new_game_snapshot_witness:
  "\<exists>st. new_game chess Map.empty ''g''
          = (NewGameOk ''g'' (Some st), [''g'' \<mapsto> new_session chess], Some ''g'')
      \<and> st_board st = standard_grid
      \<and> st_current_player st = ''white''
      \<and> st_captured_pieces st = \<lparr>white = [], black = []\<rparr>
      \<and> st_move_history st = []
      \<and> st_last_move st = None
      \<and> st_game_over st = False
      \<and> st_is_check st = False"
proof -
  have placed: "\<forall>sq. piece_at chess (start chess) sq = start_pieces sq"
    by (simp add: chess_start_pieces)
  show ?thesis
    by (rule new_game_snapshot [OF placed start_facts(3) start_facts(1) start_facts(2)])
qed

text \<open>
  C6 (promotion is to a queen or not at all). For a request that names two squares of the
  board, the candidate move goes from the requested origin square to the requested
  destination square; its promotion piece is the queen when a pawn stands on the origin
  square and the destination square is on rank 0 or rank 7 (row 7 or row 0 of the
  request), and it has no promotion piece otherwise. This is the move that \<open>make_move\<close>
  looks up among the legal moves.
\<close>

theorem queen_only_promotion:
  assumes "board_squares data"
  shows "candidate R b data =
           \<lparr>from_square = square (from_col data) (7 - from_row data),
            to_square = square (to_col data) (7 - to_row data),
            promotion =
              (if (\<exists>pc. piece_at R (cur b) (square (from_col data) (7 - from_row data)) = Some pc
                        \<and> piece_type pc = PAWN)
                  \<and> (square_rank (square (to_col data) (7 - to_row data)) = 0
                       \<or> square_rank (square (to_col data) (7 - to_row data)) = 7)
               then Some QUEEN else None)\<rparr>
       \<and> square_rank (square (to_col data) (7 - to_row data)) = 7 - to_row data
       \<and> square_file (square (to_col data) (7 - to_row data)) = to_col data"
proof -
  from assms have col: "0 \<le> to_col data" "to_col data < 8"
    by (simp_all add: board_squares_def)
  from square_of_coordinates [OF col, of "to_row data"]
  have "square_rank (square (to_col data) (7 - to_row data)) = 7 - to_row data"
       "square_file (square (to_col data) (7 - to_row data)) = to_col data"
    by simp_all
  then show ?thesis
    by (simp add: candidate_def Move_def Let_def split: option.splits)
qed

theorem queen_only_promotion_witness:
  "board_squares (req 6 4 0 4)
   \<and> candidate chess (board queen_mate_0) (req 6 4 0 4)
       = \<lparr>from_square = 12, to_square = 60, promotion = Some QUEEN\<rparr>
   \<and> candidate chess (board queen_mate_0) (req 6 4 4 4)
       = \<lparr>from_square = 12, to_square = 28, promotion = None\<rparr>
   \<and> candidate chess (board queen_mate_0) (req 7 3 0 3)
       = \<lparr>from_square = 3, to_square = 59, promotion = None\<rparr>"
proof -
  have pawn: "piece_at chess (cur (board queen_mate_0)) 12 = Some (Piece PAWN WHITE)"
   and queen: "piece_at chess (cur (board queen_mate_0)) 3 = Some (Piece QUEEN WHITE)"
    by code_simp+
  have squares: "board_squares (req 6 4 0 4)" "board_squares (req 6 4 4 4)"
                "board_squares (req 7 3 0 3)"
    by (simp_all add: board_squares_def req_def)
  show ?thesis
    using queen_only_promotion [OF squares(1), of chess "board queen_mate_0"]
      queen_only_promotion [OF squares(2), of chess "board queen_mate_0"]
      queen_only_promotion [OF squares(3), of chess "board queen_mate_0"]
      pawn queen squares(1)
    by (simp add: req_def square_def Piece_def)
qed

text \<open>
  C7 (legal destinations of a square). With a rules library whose legal moves start on
  occupied squares and end on the board: for an existing session and a board square
  \<open>(row, col)\<close> the route answers with a list whose members are exactly the coordinates
  \<open>(r, c)\<close> of the board squares that are the destination of a legal move of the current
  position starting on the given square (a destination reached by several moves, as with
  promotions, is listed once per move); the list is empty when the square is empty. The
  session table is handed back unchanged.
\<close>

theorem valid_moves_exact:
  assumes "games game_id = Some s" and "game_id \<noteq> []"
      and "0 \<le> row" and "row < 8" and "0 \<le> col" and "col < 8"
      and "origin_occupied R" and "destinations_on_board R"
  shows "\<exists>coords. get_valid_moves R games (Some game_id) row col = (ValidMovesOk coords, games)
           \<and> (\<forall>r c. (r, c) \<in> set coords \<longleftrightarrow>
                  0 \<le> r \<and> r < 8 \<and> 0 \<le> c \<and> c < 8
                  \<and> (\<exists>m \<in> set (legal_moves R (cur (board s))).
                        from_square m = square col (7 - row)
                      \<and> to_square m = square c (7 - r)))
           \<and> (piece_at R (cur (board s)) (square col (7 - row)) = None \<longrightarrow> coords = [])"
proof -
  let ?from = "square col (7 - row)"
  let ?legal = "legal_moves R (cur (board s))"
  let ?ms = "filter (\<lambda>m. from_square m = ?from) ?legal"
  let ?coords = "map (\<lambda>m. (7 - square_rank (to_square m), square_file (to_square m))) ?ms"
  have route: "get_valid_moves R games (Some game_id) row col = (ValidMovesOk ?coords, games)"
    using assms(1,2) by (simp add: get_valid_moves_def no_active_game_def Let_def)
  have on_board: "0 \<le> to_square m \<and> to_square m < 64" if "m \<in> set ?ms" for m
    using assms(8) that unfolding destinations_on_board_def by auto
  have from_ms: "(\<exists>m \<in> set ?ms. to_square m = t)
                 \<longleftrightarrow> (\<exists>m \<in> set ?legal. from_square m = ?from \<and> to_square m = t)" for t
    by auto
  have members: "(r, c) \<in> set ?coords \<longleftrightarrow>
                   0 \<le> r \<and> r < 8 \<and> 0 \<le> c \<and> c < 8
                   \<and> (\<exists>m \<in> set ?legal. from_square m = ?from \<and> to_square m = square c (7 - r))"
    for r c
    unfolding from_ms [symmetric] by (rule coords_member) (rule on_board)
  have empty: "?coords = []" if none: "piece_at R (cur (board s)) ?from = None"
  proof -
    have "piece_at R (cur (board s)) (from_square m) \<noteq> None" if "m \<in> set ?legal" for m
      using assms(7) that by (simp add: origin_occupied_def)
    with none have "from_square m \<noteq> ?from" if "m \<in> set ?legal" for m
      using that by metis
    then have "?ms = []"
      by (simp add: filter_empty_conv)
    then show ?thesis
      by simp
  qed
  show ?thesis
  proof (intro exI conjI allI impI)
    show "get_valid_moves R games (Some game_id) row col = (ValidMovesOk ?coords, games)"
      by (rule route)
    show "(r, c) \<in> set ?coords \<longleftrightarrow>
                   0 \<le> r \<and> r < 8 \<and> 0 \<le> c \<and> c < 8
                   \<and> (\<exists>m \<in> set ?legal. from_square m = ?from \<and> to_square m = square c (7 - r))"
      for r c
      by (rule members)
    show "?coords = []" if "piece_at R (cur (board s)) ?from = None"
      using that by (rule empty)
  qed
qed

theorem valid_moves_exact_witness:
  "(\<exists>coords. get_valid_moves chess [''g'' \<mapsto> queen_mate_0] (Some ''g'') 6 4
               = (ValidMovesOk coords, [''g'' \<mapsto> queen_mate_0])
           \<and> (\<forall>r c. (r, c) \<in> set coords \<longleftrightarrow>
                  0 \<le> r \<and> r < 8 \<and> 0 \<le> c \<and> c < 8
                  \<and> (\<exists>m \<in> set (legal_moves chess (cur (board queen_mate_0))).
                        from_square m = square 4 (7 - 6)
                      \<and> to_square m = square c (7 - r)))
           \<and> coords = [(5, 4), (4, 4)])
   \<and> piece_at chess (cur (board queen_mate_0)) (square 4 (7 - 4)) = None
   \<and> get_valid_moves chess [''g'' \<mapsto> queen_mate_0] (Some ''g'') 4 4
       = (ValidMovesOk [], [''g'' \<mapsto> queen_mate_0])"
proof -
  let ?games = "[''g'' \<mapsto> queen_mate_0]"
  have entry: "?games ''g'' = Some queen_mate_0" and name: "''g'' \<noteq> []"
    by simp_all
  have in_range: "(0::int) \<le> 6" "(6::int) < 8" "(0::int) \<le> 4" "(4::int) < 8"
    by simp_all
  note e2 = valid_moves_exact [where games = "?games" and game_id = "''g''",
      OF entry name in_range(1,2,3,4) chess_origin_occupied chess_destinations_on_board]
  note e4 = valid_moves_exact [where games = "?games" and game_id = "''g''",
      OF entry name in_range(3,4,3,4) chess_origin_occupied chess_destinations_on_board]
  from e2 obtain coords
    where route: "get_valid_moves chess ?games (Some ''g'') 6 4 = (ValidMovesOk coords, ?games)"
      and members: "\<forall>r c. (r, c) \<in> set coords \<longleftrightarrow>
                  0 \<le> r \<and> r < 8 \<and> 0 \<le> c \<and> c < 8
                  \<and> (\<exists>m \<in> set (legal_moves chess (cur (board queen_mate_0))).
                        from_square m = square 4 (7 - 6)
                      \<and> to_square m = square c (7 - r))"
    by blast
  from route start_valid_moves(1) have listed: "coords = [(5, 4), (4, 4)]"
    by simp
  from e4 start_valid_moves(3) obtain none
    where "get_valid_moves chess ?games (Some ''g'') 4 4 = (ValidMovesOk none, ?games)"
      and "none = []"
    by blast
  then have second: "get_valid_moves chess ?games (Some ''g'') 4 4 = (ValidMovesOk [], ?games)"
    by simp
  from route members listed have first:
    "\<exists>coords. get_valid_moves chess ?games (Some ''g'') 6 4 = (ValidMovesOk coords, ?games)
           \<and> (\<forall>r c. (r, c) \<in> set coords \<longleftrightarrow>
                  0 \<le> r \<and> r < 8 \<and> 0 \<le> c \<and> c < 8
                  \<and> (\<exists>m \<in> set (legal_moves chess (cur (board queen_mate_0))).
                        from_square m = square 4 (7 - 6)
                      \<and> to_square m = square c (7 - r)))
           \<and> coords = [(5, 4), (4, 4)]"
    by (intro exI [of _ coords] conjI)
  from first second start_valid_moves(3) show ?thesis
    by (intro conjI)
qed

text \<open>
  C8 (captures are credited to the mover). As stated the claim fails: the route appends
  the player's capture to the list \<open>white\<close> and the reply's capture to the list \<open>black\<close>
  without looking at the side to move. In the second recorded game the session after the
  undo request has Black to move; the player's f5xe4 is accepted, it captures a white
  pawn, Black's list stays empty and the symbol \<open>P\<close> goes to White's list.
\<close>

theorem black_capture_credited_to_white:
  "reachable chess fools_mate_4
   \<and> turn chess (cur (board fools_mate_4)) = BLACK
   \<and> make_move chess (\<lambda>b. Move 1 18) [''g'' \<mapsto> fools_mate_4] (Some ''g'') (req 3 5 4 4)
       = (MoveOk (Some (state_dict chess fools_mate_5)) True, [''g'' \<mapsto> fools_mate_5])
   \<and> is_capture chess (cur (board fools_mate_4)) (candidate chess (board fools_mate_4) (req 3 5 4 4))
   \<and> side_list BLACK (captured_pieces fools_mate_4) = []
   \<and> side_list BLACK (captured_pieces fools_mate_5) = []
   \<and> side_list WHITE (captured_pieces fools_mate_5) = ''P''
   \<and> \<not> credited_to_movers chess (\<lambda>b. Move 1 18) fools_mate_4 (req 3 5 4 4) True fools_mate_5"
proof -
  let ?games = "[''g'' \<mapsto> fools_mate_4]"
  have entry: "?games ''g'' = Some fools_mate_4" and name: "''g'' \<noteq> []"
    by simp_all
  have legal: "candidate chess (board fools_mate_4) (req 3 5 4 4)
                 \<in> set (legal_moves chess (cur (board fools_mate_4)))"
    using fools_mate_move4(1,2) by simp
  have mm: "make_move chess (\<lambda>b. Move 1 18) ?games (Some ''g'') (req 3 5 4 4)
       = (MoveOk (Some (state_dict chess fools_mate_5)) True, [''g'' \<mapsto> fools_mate_5])"
    unfolding make_move_accepted [where games = "?games" and game_id = "''g''", OF entry name legal]
    using fools_mate_move4(1,3) by (simp add: Let_def fools_mate_5_def)
  have lists: "side_list BLACK (captured_pieces fools_mate_4) = []"
              "side_list BLACK (captured_pieces fools_mate_5) = []"
              "side_list WHITE (captured_pieces fools_mate_5) = ''P''"
    by (simp_all add: side_list_def fools_mate_captures(8,9))
  show ?thesis
    using mm lists fools_mate_reachable(1) fools_mate_captures(6,7) fools_mate_move4(1)
      fools_mate_not_credited
    by simp
qed

text \<open>
  C8 as amended: when White is to move at the time of the request, an accepted move
  credits the movers. If the player's move is a capture, the symbol of the piece on its
  destination square, or of the piece on its origin square when the destination is
  empty, is appended to White's list, and nothing else is; if the engine answers with a
  legal move that is a capture, the symbol found the same way is appended to the list of
  the other side, and nothing else is. (A rules library whose legal moves start on
  occupied squares always yields a symbol.)
\<close>

theorem captures_credited_when_white_to_move:
  assumes "origin_occupied R"
      and "games game_id = Some s" and "game_id \<noteq> []"
      and "make_move R engine games (Some game_id) data = (MoveOk st ai_moved, games')"
      and "turn R (cur (board s)) = WHITE"
      and "ai_moved \<longrightarrow>
             engine (push R (board s) (candidate R (board s) data))
               \<in> set (legal_moves R (apply_move R (cur (board s)) (candidate R (board s) data)))"
  shows "\<exists>s'. games' game_id = Some s'
            \<and> credited_to_movers R engine s data ai_moved s'
            \<and> captured_piece R (board s) (candidate R (board s) data) \<noteq> None
            \<and> (ai_moved \<longrightarrow>
                 captured_piece R (push R (board s) (candidate R (board s) data))
                   (engine (push R (board s) (candidate R (board s) data))) \<noteq> None)"
proof -
  let ?mv = "candidate R (board s) data"
  let ?s1 = "player_moved R s ?mv"
  let ?ai = "engine (board ?s1)"
  let ?s2 = "engine_moved R ?s1 ?ai"
  have b1: "board ?s1 = push R (board s) ?mv"
    by (simp add: player_moved_def)
  have legal: "?mv \<in> set (legal_moves R (cur (board s)))"
  proof (rule ccontr)
    assume "?mv \<notin> set (legal_moves R (cur (board s)))"
    from make_move_rejected [where games = games and engine = engine, OF assms(2,3) this] assms(4)
    show False by simp
  qed
  note player = track_capture_legal [OF assms(1) legal]
  have w1: "white (captured_pieces ?s1)
              = white (captured_pieces s)
                @ (if is_capture R (cur (board s)) ?mv
                   then [symbol (the (captured_piece R (board s) ?mv))] else [])"
    and k1: "black (captured_pieces ?s1) = black (captured_pieces s)"
    by (simp_all add: player_moved_def player(2))
  note mm = make_move_accepted [where games = games and engine = engine, OF assms(2,3) legal]
  show ?thesis
  proof (cases "is_game_over R (board ?s1)")
    case True
    with mm assms(4) have "games' = games(game_id \<mapsto> ?s1)" and "\<not> ai_moved"
      by (simp_all add: Let_def)
    then show ?thesis
      using assms(5) w1 k1 player(1)
      by (simp add: credited_to_movers_def Let_def side_list_def)
  next
    case False
    with mm assms(4) have stored: "games' = games(game_id \<mapsto> ?s2)" and ai: "ai_moved"
      by (simp_all add: Let_def)
    from ai assms(6) have reply: "?ai \<in> set (legal_moves R (cur (board ?s1)))"
      by (simp add: player_moved_def push_def)
    note engine = track_capture_legal [OF assms(1) reply]
    have w2: "white (captured_pieces ?s2) = white (captured_pieces ?s1)"
      and k2: "black (captured_pieces ?s2)
                 = black (captured_pieces ?s1)
                   @ (if is_capture R (cur (board ?s1)) ?ai
                      then [symbol (the (captured_piece R (board ?s1) ?ai))] else [])"
      by (simp_all add: engine_moved_def engine(2))
    from stored ai show ?thesis
      using assms(5) w1 k1 w2 k2 player(1) engine(1)
      by (simp add: credited_to_movers_def Let_def side_list_def b1)
  qed
qed

theorem captures_credited_when_white_to_move_witness:
  "turn chess (cur (board queen_mate_2)) = WHITE
   \<and> make_move chess (\<lambda>b. Move 0 0) [''g'' \<mapsto> queen_mate_2] (Some ''g'') (req 3 7 3 4)
       = (MoveOk (Some (state_dict chess queen_mate_3)) False, [''g'' \<mapsto> queen_mate_3])
   \<and> (\<exists>s'. [''g'' \<mapsto> queen_mate_3] ''g'' = Some s'
          \<and> credited_to_movers chess (\<lambda>b. Move 0 0) queen_mate_2 (req 3 7 3 4) False s'
          \<and> captured_piece chess (board queen_mate_2)
               (candidate chess (board queen_mate_2) (req 3 7 3 4)) \<noteq> None)
   \<and> white (captured_pieces queen_mate_2) = []
   \<and> white (captured_pieces queen_mate_3) = ''p''"
proof -
  let ?games = "[''g'' \<mapsto> queen_mate_2]"
  have entry: "?games ''g'' = Some queen_mate_2" and name: "''g'' \<noteq> []"
    by simp_all
  have legal: "candidate chess (board queen_mate_2) (req 3 7 3 4)
                 \<in> set (legal_moves chess (cur (board queen_mate_2)))"
    using queen_mate_move3(1,2) by simp
  have mm: "make_move chess (\<lambda>b. Move 0 0) ?games (Some ''g'') (req 3 7 3 4)
       = (MoveOk (Some (state_dict chess queen_mate_3)) False, [''g'' \<mapsto> queen_mate_3])"
    unfolding make_move_accepted [where games = "?games" and game_id = "''g''", OF entry name legal]
    using queen_mate_move3(1,3) by (simp add: Let_def queen_mate_3_def)
  have no_reply: "False \<longrightarrow>
             (\<lambda>b. Move 0 0) (push chess (board queen_mate_2)
                  (candidate chess (board queen_mate_2) (req 3 7 3 4)))
               \<in> set (legal_moves chess (apply_move chess (cur (board queen_mate_2))
                  (candidate chess (board queen_mate_2) (req 3 7 3 4))))"
    by simp
  have before: "white (captured_pieces queen_mate_2) = []"
    by code_simp
  have after: "white (captured_pieces queen_mate_3) = ''p''"
    by (simp add: queen_mate_captures(3))
  from captures_credited_when_white_to_move [where games = "?games" and game_id = "''g''",
      OF chess_origin_occupied entry name mm queen_mate_credited_facts(1) no_reply]
  have "\<exists>s'. [''g'' \<mapsto> queen_mate_3] ''g'' = Some s'
          \<and> credited_to_movers chess (\<lambda>b. Move 0 0) queen_mate_2 (req 3 7 3 4) False s'
          \<and> captured_piece chess (board queen_mate_2)
               (candidate chess (board queen_mate_2) (req 3 7 3 4)) \<noteq> None"
    by simp
  with mm before after queen_mate_credited_facts(1) show ?thesis
    by (intro conjI)
qed

text \<open>
  C9 (a snapshot query changes nothing). The state route hands the session table back
  unchanged, for every table and cookie, so every session keeps its position, move stack
  and capture lists; asking again gives the same response; and building the snapshot
  (\<open>game_state_to_dict\<close>, which every route uses) leaves the table unchanged as well. The
  replay that computes the move history works on a temporary board of its own.
\<close>

theorem snapshot_query_no_mutation:
  "snd (get_game_state_route R games cookie) = games
   \<and> get_game_state_route R (snd (get_game_state_route R games cookie)) cookie
       = get_game_state_route R games cookie
   \<and> snd (game_state_to_dict R games game_id) = games"
  by (simp add: get_game_state_route_games game_state_to_dict_games)

text \<open>
  C10 (undo does not fail on an empty capture list). For an existing session with at
  least two moves on the stack the undo request never raises: both pops and both guarded
  removals return, the response is the success response, and a capture list that was
  empty stays empty, whether or not the popped move was a capture.
\<close>

theorem undo_total:
  assumes "games game_id = Some s" and "game_id \<noteq> []"
      and "2 \<le> length (move_stack (board s))"
  shows "\<exists>ai_move player_move s'.
           undo_exchange R s = Inr (ai_move, player_move, s')
         \<and> undo_move R games (Some game_id)
             = Inr (StateOk (Some (state_dict R s')), games(game_id \<mapsto> s'))
         \<and> (black (captured_pieces s) = [] \<longrightarrow> black (captured_pieces s') = [])
         \<and> (white (captured_pieces s) = [] \<longrightarrow> white (captured_pieces s') = [])"
proof -
  from assms(3) have "2 \<le> length (history (board s))"
    by (simp add: move_stack_def)
  then obtain hs x y where "history (board s) = hs @ [x, y]"
    using two_last by blast
  then have h: "history (board s) = hs @ [(fst x, snd x), (fst y, snd y)]"
    by simp
  note ex = undo_exchange_two [OF h, of R]
  from assms ex show ?thesis
    by (simp add: undo_move_def no_active_game_def Let_def and_then_def
        game_state_to_dict_some)
qed

theorem undo_total_witness:
  "black (captured_pieces queen_mate_3) = []
   \<and> is_capture chess (cur (board queen_mate_2)) (Move 39 36)
   \<and> (\<exists>s'. undo_exchange chess queen_mate_3 = Inr (Move 39 36, Move 60 52, s')
          \<and> undo_move chess [''g'' \<mapsto> queen_mate_3] (Some ''g'')
               = Inr (StateOk (Some (state_dict chess s')), [''g'' \<mapsto> s'])
          \<and> black (captured_pieces s') = [])"
proof -
  have name: "''g'' \<noteq> []"
    by simp
  have entry: "[''g'' \<mapsto> queen_mate_3] ''g'' = Some queen_mate_3"
    by simp
  have len: "2 \<le> length (move_stack (board queen_mate_3))"
    by (simp add: queen_mate_captures(6))
  have empty: "black (captured_pieces queen_mate_3) = []"
    by (simp add: queen_mate_captures(3))
  show ?thesis
    using undo_total [where games = "[''g'' \<mapsto> queen_mate_3]" and game_id = "''g''"
        and R = chess, OF entry name len]
      queen_mate_undo queen_mate_captures(1) empty
    by auto
qed

end
